(* ===== verification/Prelude.thy ===== *)
theory Prelude
  imports Main "HOL-Library.Word"
begin

text \<open>
  Shared vocabulary of the development: machine integers, the outcome of a Rust
  computation, the state-passing combinators, little-endian bytes, and the generic
  lemmas on words and lists that the component theories use.
\<close>

unbundle bit_operations_syntax

named_theorems outcome_simps "unfolding the state-passing combinators"
named_theorems cfg_simps "numeric constants of the source"

section \<open>Machine integers\<close>

type_synonym u8 = "8 word"
type_synonym u32 = "32 word"
type_synonym u64 = "64 word"

text \<open>
  The build files select no profile, so arithmetic is that of Cargo's default (dev)
  profile: an overflowing \<open>+\<close>, \<open>-\<close> or \<open>*\<close> panics.
\<close>

datatype panic =
    ArithOverflow | IndexOutOfBounds | AssertFailed | UnwrapFailed | ExpectFailed | ExplicitPanic

text \<open>
  The outcome of a Rust call: a value, an error value, a panic, or no return at all
  (\<open>Hang\<close>, only ever produced where a loop is known not to end).
\<close>

datatype ('e, 'a) outcome = Ok 'a | Err 'e | Panic panic | Hang

type_synonym ('s, 'e, 'a) M = "'s \<Rightarrow> ('e, 'a) outcome \<times> 's"

definition ret :: "'a \<Rightarrow> ('s, 'e, 'a) M" where
  "ret x s = (Ok x, s)"

definition throw :: "'e \<Rightarrow> ('s, 'e, 'a) M" where
  "throw e s = (Err e, s)"

definition panicM :: "panic \<Rightarrow> ('s, 'e, 'a) M" where
  "panicM p s = (Panic p, s)"

definition bindM :: "('s, 'e, 'a) M \<Rightarrow> ('a \<Rightarrow> ('s, 'e, 'b) M) \<Rightarrow> ('s, 'e, 'b) M" where
  "bindM m f s = (case m s of
       (Ok x, s') \<Rightarrow> f x s'
     | (Err e, s') \<Rightarrow> (Err e, s')
     | (Panic p, s') \<Rightarrow> (Panic p, s')
     | (Hang, s') \<Rightarrow> (Hang, s'))"

definition getM :: "('s \<Rightarrow> 'a) \<Rightarrow> ('s, 'e, 'a) M" where
  "getM f s = (Ok (f s), s)"

definition modM :: "('s \<Rightarrow> 's) \<Rightarrow> ('s, 'e, unit) M" where
  "modM f s = (Ok (), f s)"

definition assertM :: "bool \<Rightarrow> ('s, 'e, unit) M" where
  "assertM b = (if b then ret () else panicM AssertFailed)"

text \<open>\<open>ok_or_else\<close> followed by the question mark operator.\<close>

definition ok_or :: "'e \<Rightarrow> 'a option \<Rightarrow> ('s, 'e, 'a) M" where
  "ok_or e x = (case x of None \<Rightarrow> throw e | Some v \<Rightarrow> ret v)"

definition checked_add32 :: "u32 \<Rightarrow> u32 \<Rightarrow> u32 option" where
  "checked_add32 a b = (if unat a + unat b < 2 ^ 32 then Some (a + b) else None)"

definition checked_mul32 :: "u32 \<Rightarrow> u32 \<Rightarrow> u32 option" where
  "checked_mul32 a b = (if unat a * unat b < 2 ^ 32 then Some (a * b) else None)"

definition add32 :: "u32 \<Rightarrow> u32 \<Rightarrow> ('s, 'e, u32) M" where
  "add32 a b = (case checked_add32 a b of None \<Rightarrow> panicM ArithOverflow | Some c \<Rightarrow> ret c)"

definition mul32 :: "u32 \<Rightarrow> u32 \<Rightarrow> ('s, 'e, u32) M" where
  "mul32 a b = (case checked_mul32 a b of None \<Rightarrow> panicM ArithOverflow | Some c \<Rightarrow> ret c)"

lemmas outcome_defs [outcome_simps] =
  ret_def throw_def panicM_def bindM_def getM_def modM_def assertM_def ok_or_def add32_def mul32_def

lemma bindM_eq_Ok:
  "bindM m f s = (Ok y, t) \<longleftrightarrow> (\<exists>x s'. m s = (Ok x, s') \<and> f x s' = (Ok y, t))"
  by (cases "m s"; cases "fst (m s)") (auto simp: bindM_def)

text \<open>Running one primitive; not simp rules, so that the composition laws stay usable.\<close>

lemma bindM_getM: "bindM (getM h) f s = f (h s) s"
  by (simp add: bindM_def getM_def)

lemma bindM_modM: "bindM (modM g) f s = f () (g s)"
  by (simp add: bindM_def modM_def)

lemma bindM_ret: "bindM (ret x) f s = f x s"
  by (simp add: bindM_def ret_def)

lemma bindM_throw: "bindM (throw e) f s = (Err e, s)"
  by (simp add: bindM_def throw_def)

lemma bindM_panicM: "bindM (panicM p) f s = (Panic p, s)"
  by (simp add: bindM_def panicM_def)

lemma bindM_ok_or:
  "bindM (ok_or e (Some v)) f s = f v s" "bindM (ok_or e None) f s = (Err e, s)"
  by (simp_all add: ok_or_def bindM_ret bindM_throw)

lemma bindM_assertM: "bindM (assertM b) f s = (if b then f () s else (Panic AssertFailed, s))"
  by (simp add: assertM_def bindM_ret bindM_panicM)

lemma bindM_add32:
  "bindM (add32 a b) f s =
     (if unat a + unat b < 2 ^ 32 then f (a + b) s else (Panic ArithOverflow, s))"
  by (simp add: add32_def checked_add32_def bindM_ret bindM_panicM)

lemma bindM_mul32:
  "bindM (mul32 a b) f s =
     (if unat a * unat b < 2 ^ 32 then f (a * b) s else (Panic ArithOverflow, s))"
  by (simp add: mul32_def checked_mul32_def bindM_ret bindM_panicM)

lemmas bindM_run = bindM_add32 bindM_mul32 bindM_getM bindM_modM bindM_ret bindM_throw bindM_panicM bindM_ok_or bindM_assertM

lemma bindM_assoc: "bindM (bindM m f) g s = bindM m (\<lambda>x. bindM (f x) g) s"
  by (simp add: bindM_def split: prod.splits outcome.splits)

text \<open>
  An invariant of a computation: a predicate on states and a relation between the states
  before and after, kept whatever the outcome is.
\<close>

definition preserves :: "('s \<Rightarrow> bool) \<Rightarrow> ('s, 'e, 'a) M \<Rightarrow> bool" where
  "preserves I m \<longleftrightarrow> (\<forall>s. I s \<longrightarrow> I (snd (m s)))"

lemma preservesI [intro?]: "(\<And>s. I s \<Longrightarrow> I (snd (m s))) \<Longrightarrow> preserves I m"
  by (simp add: preserves_def)

lemma preservesD: "preserves I m \<Longrightarrow> I s \<Longrightarrow> m s = (r, s') \<Longrightarrow> I s'"
  by (metis preserves_def snd_conv)

lemma preserves_bindM [intro]:
  assumes "preserves I m" and "\<And>x. preserves I (f x)"
  shows "preserves I (bindM m f)"
proof
  fix s assume "I s"
  obtain r s' where m: "m s = (r, s')" by (cases "m s")
  with assms(1) \<open>I s\<close> have "I s'" by (rule preservesD)
  with assms(2) m show "I (snd (bindM m f s))"
    by (cases r) (auto simp: preserves_def bindM_def)
qed

lemma bindM_cong_preserves:
  assumes "preserves I m" and "I s" and "\<And>x t. I t \<Longrightarrow> f x t = g x t"
  shows "bindM m f s = bindM m g s"
  using preservesD [OF assms(1,2)] assms(3) by (auto simp: bindM_def split: prod.split outcome.split)

lemma preserves_ret [simp, intro]: "preserves I (ret x)"
  by (simp add: preserves_def ret_def)

lemma preserves_throw [simp, intro]: "preserves I (throw x)"
  by (simp add: preserves_def throw_def)

lemma preserves_panicM [simp, intro]: "preserves I (panicM x)"
  by (simp add: preserves_def panicM_def)

lemma preserves_getM [simp, intro]: "preserves I (getM f)"
  by (simp add: preserves_def getM_def)

lemma preserves_ok_or [simp, intro]: "preserves I (ok_or e x)"
  by (simp add: ok_or_def split: option.split)

lemma preserves_assertM [simp, intro]: "preserves I (assertM b)"
  by (simp add: assertM_def)

lemma preserves_add32 [simp, intro]: "preserves I (add32 a b)"
  by (simp add: add32_def split: option.split)

lemma preserves_mul32 [simp, intro]: "preserves I (mul32 a b)"
  by (simp add: mul32_def split: option.split)

lemma preserves_modM [intro]: "(\<And>s. I s \<Longrightarrow> I (f s)) \<Longrightarrow> preserves I (modM f)"
  by (simp add: preserves_def modM_def)

text \<open>A property of every value a computation returns.\<close>

definition returns :: "('a \<Rightarrow> bool) \<Rightarrow> ('s, 'e, 'a) M \<Rightarrow> bool" where
  "returns P m \<longleftrightarrow> (\<forall>s x s'. m s = (Ok x, s') \<longrightarrow> P x)"

lemma returnsD: "returns P m \<Longrightarrow> m s = (Ok x, s') \<Longrightarrow> P x"
  by (auto simp: returns_def)

lemma returns_bindM [intro]: "(\<And>x. returns P (f x)) \<Longrightarrow> returns P (bindM m f)"
  by (auto simp: returns_def bindM_eq_Ok)

lemma returns_bindM_assertM: "(b \<Longrightarrow> returns P (f ())) \<Longrightarrow> returns P (bindM (assertM b) f)"
  by (auto simp: returns_def bindM_eq_Ok assertM_def ret_def panicM_def split: if_splits)

lemma returns_ret [simp]: "returns P (ret x) \<longleftrightarrow> P x"
  by (simp add: returns_def ret_def)

lemma returns_throw [simp]: "returns P (throw e)"
  by (simp add: returns_def throw_def)

lemma returns_panicM [simp]: "returns P (panicM e)"
  by (simp add: returns_def panicM_def)

text \<open>
  A computation that cannot tell two related states apart: from both it has the same outcome, its
  value seen through \<open>h\<close>, and leaves related states.
\<close>

definition oblivious :: "('a \<Rightarrow> 'b) \<Rightarrow> ('s \<Rightarrow> 's \<Rightarrow> bool) \<Rightarrow> ('s, 'e, 'a) M \<Rightarrow> bool" where
  "oblivious h R m \<longleftrightarrow>
     (\<forall>s t. R s t \<longrightarrow> map_outcome id h (fst (m s)) = map_outcome id h (fst (m t)) \<and>
        R (snd (m s)) (snd (m t)))"

lemma obliviousI [intro?]:
  "(\<And>s t. R s t \<Longrightarrow> map_outcome id h (fst (m s)) = map_outcome id h (fst (m t))) \<Longrightarrow>
   (\<And>s t. R s t \<Longrightarrow> R (snd (m s)) (snd (m t))) \<Longrightarrow> oblivious h R m"
  by (simp add: oblivious_def)

lemma obliviousD:
  assumes "oblivious id R m" and "R s t"
  shows "fst (m s) = fst (m t)" and "R (snd (m s)) (snd (m t))"
  using assms by (simp_all add: oblivious_def outcome.map_id)

lemma oblivious_bindM:
  assumes "oblivious id R m" and "\<And>x. oblivious h R (f x)"
  shows "oblivious h R (bindM m f)"
  unfolding oblivious_def
proof (intro allI impI)
  fix s t assume R: "R s t"
  obtain r s' where s: "m s = (r, s')" by (cases "m s")
  with obliviousD [OF assms(1) R] obtain t' where t: "m t = (r, t')" "R s' t'" by (cases "m t") auto
  with s assms(2) show "map_outcome id h (fst (bindM m f s)) = map_outcome id h (fst (bindM m f t)) \<and>
      R (snd (bindM m f s)) (snd (bindM m f t))"
    by (cases r) (simp_all add: bindM_def oblivious_def)
qed

lemma oblivious_if: "oblivious h R a \<Longrightarrow> oblivious h R b \<Longrightarrow> oblivious h R (if c then a else b)"
  by simp

lemma oblivious_ret [simp, intro]: "oblivious h R (ret x)"
  by (simp add: oblivious_def ret_def)

lemma oblivious_throw [simp, intro]: "oblivious h R (throw e)"
  by (simp add: oblivious_def throw_def)

lemma oblivious_panicM [simp, intro]: "oblivious h R (panicM e)"
  by (simp add: oblivious_def panicM_def)

lemma oblivious_getM: "(\<And>s t. R s t \<Longrightarrow> f s = f t) \<Longrightarrow> oblivious h R (getM f)"
  by (simp add: oblivious_def getM_def)

lemma oblivious_modM: "(\<And>s t. R s t \<Longrightarrow> R (f s) (f t)) \<Longrightarrow> oblivious h R (modM f)"
  by (simp add: oblivious_def modM_def)

lemma oblivious_ok_or [simp, intro]: "oblivious h R (ok_or e x)"
  by (simp add: ok_or_def split: option.split)

lemma oblivious_assertM [simp, intro]: "oblivious h R (assertM b)"
  by (simp add: assertM_def)

lemma oblivious_add32 [simp, intro]: "oblivious h R (add32 a b)"
  by (simp add: add32_def split: option.split)

lemma oblivious_mul32 [simp, intro]: "oblivious h R (mul32 a b)"
  by (simp add: mul32_def split: option.split)

section \<open>Words\<close>

lemma unat_lt_2p32 [simp]: "unat (a :: u32) < 4294967296"
  using unsigned_less [of a] by simp

lemma checked_add32_Some:
  "checked_add32 a b = Some c \<longleftrightarrow> unat a + unat b < 2 ^ 32 \<and> c = a + b"
  by (auto simp: checked_add32_def)

lemma unat_add32:
  assumes "unat (a :: u32) + unat b < 4294967296"
  shows "unat (a + b) = unat a + unat b"
  using assms by (simp add: unat_word_ariths)

lemma unat_of_nat32 [simp]: "n < 4294967296 \<Longrightarrow> unat (of_nat n :: u32) = n"
  by (simp add: unat_of_nat)

lemma unat_and_3ff: "unat ((a :: u32) AND 0x3ff) = unat a mod 1024"
proof -
  have "a AND 0x3ff = take_bit 10 a"
    by (simp add: take_bit_eq_mask mask_eq_exp_minus_1)
  then have "a AND 0x3ff = a mod 1024" by (simp add: take_bit_eq_mod)
  then show ?thesis by (simp only: unat_mod) simp
qed

lemma unat_shr10: "unat (drop_bit 10 (a :: u32)) = unat a div 1024"
proof -
  have "drop_bit 10 a = a div 1024" by (simp add: drop_bit_eq_div)
  then show ?thesis by (simp only: unat_div) simp
qed

section \<open>Little-endian bytes\<close>

text \<open>Byte \<open>k\<close> (0 the least significant) of a 32-bit word.\<close>

definition byte_of :: "nat \<Rightarrow> u32 \<Rightarrow> u8" where
  "byte_of k w = ucast (drop_bit (8 * k) w)"

text \<open>\<open>u32::to_le_bytes\<close> and \<open>u32::from_le_bytes\<close>.\<close>

definition to_le_bytes :: "u32 \<Rightarrow> u8 list" where
  "to_le_bytes w = [byte_of 0 w, byte_of 1 w, byte_of 2 w, byte_of 3 w]"

definition from_le4 :: "u8 \<Rightarrow> u8 \<Rightarrow> u8 \<Rightarrow> u8 \<Rightarrow> u32" where
  "from_le4 a b c d =
     ucast a OR push_bit 8 (ucast b) OR push_bit 16 (ucast c) OR push_bit 24 (ucast d)"

lemma length_to_le_bytes [simp]: "length (to_le_bytes w) = 4"
  by (simp add: to_le_bytes_def)

lemma nth_to_le_bytes: "k < 4 \<Longrightarrow> to_le_bytes w ! k = byte_of k w"
  by (auto simp: to_le_bytes_def less_Suc_eq numeral_eq_Suc)

lemma bit8: "bit (a :: u8) n \<Longrightarrow> n < 8"
  using bit_imp_le_length [of a n] by simp

lemma byte_of_from_le4:
  "byte_of 0 (from_le4 a b c d) = a" "byte_of (Suc 0) (from_le4 a b c d) = b"
  "byte_of 2 (from_le4 a b c d) = c" "byte_of 3 (from_le4 a b c d) = d"
  by (rule bit_word_eqI; simp add: byte_of_def from_le4_def bit_simps; auto dest: bit8)+

lemma from_le4_bytes: "from_le4 (byte_of 0 w) (byte_of 1 w) (byte_of 2 w) (byte_of 3 w) = w"
proof (rule bit_word_eqI)
  fix n assume "n < LENGTH(32)"
  then consider "n < 8" | "8 \<le> n" "n < 16" | "16 \<le> n" "n < 24" | "24 \<le> n" "n < 32"
    by fastforce
  then show "bit (from_le4 (byte_of 0 w) (byte_of 1 w) (byte_of 2 w) (byte_of 3 w)) n = bit w n"
    by cases (simp_all add: byte_of_def from_le4_def bit_simps, linarith+)
qed

text \<open>\<open>bytemuck::cast_slice\<close> between words and bytes on a little-endian host.\<close>

fun words_to_bytes :: "u32 list \<Rightarrow> u8 list" where
  "words_to_bytes [] = []"
| "words_to_bytes (w # ws) = to_le_bytes w @ words_to_bytes ws"

fun bytes_to_words :: "u8 list \<Rightarrow> u32 list" where
  "bytes_to_words (a # b # c # d # bs) = from_le4 a b c d # bytes_to_words bs"
| "bytes_to_words _ = []"

text \<open>\<open>u32::from_le_bytes\<close> of an array of four bytes given as a list.\<close>

fun le_word :: "u8 list \<Rightarrow> u32" where
  "le_word [a, b, c, d] = from_le4 a b c d"
| "le_word _ = 0"

lemma le_word_to_le_bytes [simp]: "le_word (to_le_bytes w) = w"
  by (simp add: to_le_bytes_def from_le4_bytes [simplified])

lemma to_le_bytes_le_word:
  assumes "length bs = 4"
  shows "to_le_bytes (le_word bs) = bs"
proof -
  obtain a b c d where "bs = [a, b, c, d]"
    using assms by (auto simp: numeral_eq_Suc length_Suc_conv)
  then show ?thesis by (simp add: to_le_bytes_def byte_of_from_le4)
qed

lemma length_words_to_bytes [simp]: "length (words_to_bytes ws) = 4 * length ws"
  by (induction ws) auto

lemma bytes_to_words_inverse [simp]: "bytes_to_words (words_to_bytes ws) = ws"
  by (induction ws) (auto simp: to_le_bytes_def from_le4_bytes [simplified])

lemma words_to_bytes_inverse:
  "length bs mod 4 = 0 \<Longrightarrow> words_to_bytes (bytes_to_words bs) = bs"
proof (induction bs rule: bytes_to_words.induct)
  case (1 a b c d bs)
  then show ?case by (simp add: to_le_bytes_def byte_of_from_le4 [simplified])
qed simp_all

lemma length_bytes_to_words [simp]: "length (bytes_to_words bs) = length bs div 4"
  by (induction bs rule: bytes_to_words.induct) auto

text \<open>\<open>u32::to_be\<close> on a little-endian host swaps the bytes.\<close>

definition swap_bytes :: "u32 \<Rightarrow> u32" where
  "swap_bytes w = from_le4 (byte_of 3 w) (byte_of 2 w) (byte_of 1 w) (byte_of 0 w)"

lemma swap_bytes_swap_bytes [simp]: "swap_bytes (swap_bytes w) = w"
  by (simp add: swap_bytes_def byte_of_from_le4 from_le4_bytes [simplified])

end
