(* ===== verification/Vm_Base.thy ===== *)
theory Vm_Base
  imports Prelude
begin

text \<open>
  The constants and small types of \<open>src/vm/mod.rs\<close>, the interface types the virtual
  machine shares with its libraries (\<open>rrs_lib\<close>, \<open>gdbstub\<close>), and the error values it
  builds with \<open>anyhow\<close>.
\<close>

section \<open>Registers, ecall numbers, halt types, file descriptors\<close>

definition REG_ZERO :: nat where "REG_ZERO = 0"
definition REG_RA :: nat where "REG_RA = 1"
definition REG_SP :: nat where "REG_SP = 2"
definition REG_GP :: nat where "REG_GP = 3"
definition REG_TP :: nat where "REG_TP = 4"
definition REG_T0 :: nat where "REG_T0 = 5"
definition REG_T1 :: nat where "REG_T1 = 6"
definition REG_T2 :: nat where "REG_T2 = 7"
definition REG_S0 :: nat where "REG_S0 = 8"
definition REG_FP :: nat where "REG_FP = 8"
definition REG_S1 :: nat where "REG_S1 = 9"
definition REG_A0 :: nat where "REG_A0 = 10"
definition REG_A1 :: nat where "REG_A1 = 11"
definition REG_A2 :: nat where "REG_A2 = 12"
definition REG_A3 :: nat where "REG_A3 = 13"
definition REG_A4 :: nat where "REG_A4 = 14"
definition REG_A5 :: nat where "REG_A5 = 15"
definition REG_A6 :: nat where "REG_A6 = 16"
definition REG_A7 :: nat where "REG_A7 = 17"
definition REG_S2 :: nat where "REG_S2 = 18"
definition REG_S3 :: nat where "REG_S3 = 19"
definition REG_S4 :: nat where "REG_S4 = 20"
definition REG_S5 :: nat where "REG_S5 = 21"
definition REG_S6 :: nat where "REG_S6 = 22"
definition REG_S7 :: nat where "REG_S7 = 23"
definition REG_S8 :: nat where "REG_S8 = 24"
definition REG_S9 :: nat where "REG_S9 = 25"
definition REG_S10 :: nat where "REG_S10 = 26"
definition REG_S11 :: nat where "REG_S11 = 27"
definition REG_T3 :: nat where "REG_T3 = 28"
definition REG_T4 :: nat where "REG_T4 = 29"
definition REG_T5 :: nat where "REG_T5 = 30"
definition REG_T6 :: nat where "REG_T6 = 31"

lemmas reg_abi_simps [cfg_simps] =
  REG_ZERO_def REG_RA_def REG_SP_def REG_GP_def REG_TP_def REG_T0_def
  REG_T1_def REG_T2_def REG_S0_def REG_FP_def REG_S1_def REG_A0_def
  REG_A1_def REG_A2_def REG_A3_def REG_A4_def REG_A5_def REG_A6_def
  REG_A7_def REG_S2_def REG_S3_def REG_S4_def REG_S5_def REG_S6_def
  REG_S7_def REG_S8_def REG_S9_def REG_S10_def REG_S11_def REG_T3_def
  REG_T4_def REG_T5_def REG_T6_def

definition ECALL_HALT :: u32 where "ECALL_HALT = 0"
definition ECALL_INPUT :: u32 where "ECALL_INPUT = 1"
definition ECALL_SOFTWARE :: u32 where "ECALL_SOFTWARE = 2"
definition ECALL_SHA :: u32 where "ECALL_SHA = 3"
definition ECALL_BIGINT :: u32 where "ECALL_BIGINT = 4"

definition HALT_TERMINATE :: u32 where "HALT_TERMINATE = 0"
definition HALT_PAUSE :: u32 where "HALT_PAUSE = 1"

definition STDIN :: u32 where "STDIN = 0"
definition STDOUT :: u32 where "STDOUT = 1"
definition STDERR :: u32 where "STDERR = 2"
definition JOURNAL :: u32 where "JOURNAL = 3"

lemmas ecall_simps [cfg_simps] =
  ECALL_HALT_def ECALL_INPUT_def ECALL_SOFTWARE_def ECALL_SHA_def ECALL_BIGINT_def
  HALT_TERMINATE_def HALT_PAUSE_def STDIN_def STDOUT_def STDERR_def JOURNAL_def

section \<open>Interface types\<close>

text \<open>\<open>gdbstub\<close>'s \<open>WatchKind\<close> and \<open>rrs_lib\<close>'s \<open>MemAccessSize\<close>.\<close>

datatype WatchKind = WatchWrite | WatchRead | WatchReadWrite

datatype MemAccessSize = Byte | HalfWord | Word

text \<open>\<open>rrs_lib\<close>'s register file and program counter.\<close>

record HartState =
  registers :: "u32 list"
  pc :: u32

definition new_hart :: HartState where
  "new_hart = \<lparr>registers = replicate 32 0, pc = 0\<rparr>"

datatype ExitCode = Paused u32 | Halted u32 | HwWatchPoint WatchKind u32

section \<open>Errors\<close>

text \<open>
  One constructor per \<open>bail!\<close> or \<open>anyhow!\<close> of the virtual machine. \<open>ExecException\<close>
  carries the program counter the message prints and the name of the exception of the
  instruction executor.
\<close>

datatype vm_error =
    IllegalInstruction
  | CannotReadNextInstruction
  | ExecException u32 string
  | UnsupportedInputChannel
  | UnsupportedOutputChannel
  | NotEnoughOutput
  | UnknownEcall u32 u32
  | IllegalHaltType u32
  | InvalidToGuestPtr u32 u32
  | NamePtrUnreadable
  | InvalidUtf8
  | CannotWriteFinalHash
  | CannotReadPreviousHash
  | CannotReadShaInput
  | BigIntOpNotZero
  | CannotReadBigInt
  | CannotWriteBigInt
  | RandomFailed
  | PanicMessageUnreadable
  | GuestPanicked "u8 list"
  | EnvNameUnreadable
  | BadReadFd u32
  | WriteDataUnreadable
  | LogDataUnreadable
  | ArgIndexOutOfRange u32 nat
  | ElfParseError
  | NotElf32
  | NotRiscV
  | NotExecutable
  | EntryTooLarge
  | InvalidEntrypoint
  | MissingSegmentTable
  | TooManyProgramHeaders
  | FileSizeTooLarge
  | InvalidFileSize
  | MemSizeTooLarge
  | InvalidMemSize
  | VaddrTooLarge
  | VaddrUnaligned u32
  | OffsetTooLarge
  | InvalidSegmentVaddr
  | AddressExceedsMax u32
  | InvalidSegmentOffset

end
