(* ===== verification/Session_Cycle.thy ===== *)
theory Session_Cycle
  imports Vm_Base
begin

text \<open>
  The session cycle counter of \<open>src/vm/session_cycle.rs\<close>: the pages a step touches, the
  cycles it costs to load and store them along the page hash tree, the segments a session
  is cut into, and the cycles of an opcode.
\<close>

section \<open>Constants and state\<close>

definition PRE_CYCLE :: nat where
  "PRE_CYCLE = 1 + 1561 + 1 + 27 + 2"

definition POST_CYCLE :: nat where
  "POST_CYCLE = 2 + 2 + 2"

definition OTHER_CONST_CYCLE :: nat where
  "OTHER_CONST_CYCLE = 73 + 50"

lemmas cycle_consts [cfg_simps] = PRE_CYCLE_def POST_CYCLE_def OTHER_CONST_CYCLE_def

text \<open>
  The counters are \<open>usize\<close>; they are natural numbers here (no run reaches \<open>2 ^ 64\<close>
  cycles). A \<open>HashSet\<close> is a set.
\<close>

record SessionCycleCount =
  num_segment :: nat
  cur_segment_cycle :: nat
  cur_segment_resident :: "u32 set"
  cur_segment_dirty :: "u32 set"
  cur_step_read :: "u32 set"
  cur_step_write :: "u32 set"

definition default_scc :: SessionCycleCount where
  "default_scc = \<lparr>num_segment = 0, cur_segment_cycle = 0, cur_segment_resident = {},
     cur_segment_dirty = {}, cur_step_read = {}, cur_step_write = {}\<rparr>"

section \<open>Operations\<close>

definition update_cur_segment_total_cycle ::
    "nat \<Rightarrow> SessionCycleCount \<Rightarrow> bool \<times> SessionCycleCount" where
  "update_cur_segment_total_cycle new_step_cycle c =
     (let new_segment_total_cycle =
            PRE_CYCLE + POST_CYCLE + OTHER_CONST_CYCLE + cur_segment_cycle c + new_step_cycle
      in if new_segment_total_cycle > 1048576
         then (True, c\<lparr>num_segment := num_segment c + 1, cur_segment_cycle := 0,
                       cur_segment_resident := {}, cur_segment_dirty := {}\<rparr>)
         else (False, c\<lparr>cur_segment_cycle := cur_segment_cycle c + new_step_cycle\<rparr>))"

definition get_session_cycle :: "SessionCycleCount \<Rightarrow> nat" where
  "get_session_cycle c =
     (let segment_total_cycle =
            PRE_CYCLE + POST_CYCLE + OTHER_CONST_CYCLE + cur_segment_cycle c
      in num_segment c * 1048576 + segment_total_cycle)"

definition callback_read_mem :: "u32 \<Rightarrow> SessionCycleCount \<Rightarrow> SessionCycleCount" where
  "callback_read_mem page_idx c = c\<lparr>cur_step_read := insert page_idx (cur_step_read c)\<rparr>"

definition callback_write_mem :: "u32 \<Rightarrow> SessionCycleCount \<Rightarrow> SessionCycleCount" where
  "callback_write_mem page_idx c = c\<lparr>cur_step_write := insert page_idx (cur_step_write c)\<rparr>"

text \<open>
  One step up the page hash tree: \<open>(0x0D00_0000 + cur_page_idx * 32) >> 10\<close>, \<open>None\<close>
  where the multiplication or the addition overflows.
\<close>

definition parent_page :: "u32 \<Rightarrow> u32 option" where
  "parent_page p =
     (case checked_mul32 p 32 of
        None \<Rightarrow> None
      | Some d \<Rightarrow>
          (case checked_add32 0x0D000000 d of
             None \<Rightarrow> None
           | Some a \<Rightarrow> Some (drop_bit 10 a)))"

definition page_cost :: "u32 \<Rightarrow> nat" where
  "page_cost p = (if p = 219862 then 1 + 5 + (16 + 52) * 11 else 1 + 5 + (16 + 52) * 16)"

lemma parent_page_Some:
  "parent_page p = Some q \<longleftrightarrow>
     unat p * 32 + 0x0D000000 < 2 ^ 32 \<and> q = drop_bit 10 (0x0D000000 + p * 32)"
proof -
  have "unat (p * 32) = unat p * 32" if "unat p * 32 < 2 ^ 32"
    using that by (simp add: unat_word_ariths)
  then show ?thesis
    by (auto simp: parent_page_def checked_mul32_def checked_add32_def)
qed

lemma unat_parent_page:
  assumes "parent_page p = Some q"
  shows "unat q = 212992 + unat p div 32"
proof -
  from assms have b: "unat p * 32 + 0x0D000000 < 2 ^ 32"
    and q: "q = drop_bit 10 (0x0D000000 + p * 32)"
    by (auto simp: parent_page_Some)
  from b have "unat (0x0D000000 + p * 32) = 0x0D000000 + unat p * 32"
    by (simp add: unat_word_ariths)
  with q have "unat q = (0x0D000000 + unat p * 32) div 1024"
    by (simp add: unat_shr10)
  also have "\<dots> = 212992 + unat p div 32"
    by simp
  finally show ?thesis .
qed

text \<open>How far a page is from the root of the tree; every parent is nearer.\<close>

definition root_distance :: "u32 \<Rightarrow> nat" where
  "root_distance p = nat \<bar>int (unat p) - 219862\<bar>"

lemma parent_page_nearer:
  assumes "parent_page p = Some q" and "p \<noteq> 219862"
  shows "root_distance q < root_distance p"
proof -
  have "unat p \<noteq> 219862"
    using assms(2) word_unat_eq_iff [of p 219862] by simp
  then show ?thesis
    using unat_parent_page [OF assms(1)] unfolding root_distance_def by linarith
qed

text \<open>
  The inner \<open>loop\<close> of \<open>callback_step\<close>: from a page up to the first page that is
  resident or already new, or to the root; \<open>None\<close> is the overflow panic.
\<close>

function page_walk :: "u32 set \<Rightarrow> nat \<times> u32 list \<Rightarrow> u32 \<Rightarrow> (nat \<times> u32 list) option" where
  "page_walk resident (cycle, new) p =
     (if p \<in> resident \<or> p \<in> set new then Some (cycle, new)
      else if p = 219862 then Some (cycle + page_cost p, new @ [p])
      else (case parent_page p of
              None \<Rightarrow> None
            | Some q \<Rightarrow> page_walk resident (cycle + page_cost p, new @ [p]) q))"
  by pat_completeness auto
termination
  by (relation "measure (\<lambda>(_, _, p). root_distance p)") (auto intro: parent_page_nearer)

declare page_walk.simps [simp del]

text \<open>The \<open>for\<close> loop over the pages of the step.\<close>

fun page_walks :: "u32 set \<Rightarrow> nat \<times> u32 list \<Rightarrow> u32 list \<Rightarrow> (nat \<times> u32 list) option" where
  "page_walks resident acc [] = Some acc"
| "page_walks resident acc (p # ps) =
     (case page_walk resident acc p of
        None \<Rightarrow> None
      | Some acc' \<Rightarrow> page_walks resident acc' ps)"

text \<open>
  One round of the outer \<open>loop\<close>: charge the pages of the step and try to fit them into
  the segment; the flag says whether the round must be redone in a new segment. The order
  in which a \<open>HashSet\<close> is iterated is not specified: \<open>it\<close> is that order.
\<close>

definition callback_round ::
    "(u32 set \<Rightarrow> u32 list) \<Rightarrow> nat \<Rightarrow> nat \<Rightarrow> SessionCycleCount
     \<Rightarrow> panic + (bool \<times> SessionCycleCount)" where
  "callback_round it opcode_cycle extra_cycle c =
     (case page_walks (cur_segment_resident c) (0, []) (it (cur_step_read c)) of
        None \<Rightarrow> Inl ArithOverflow
      | Some (read_cycle, new_resident) \<Rightarrow>
     (case page_walks (cur_segment_dirty c) (0, []) (it (cur_step_write c)) of
        None \<Rightarrow> Inl ArithOverflow
      | Some (write_cycle, new_dirty) \<Rightarrow>
     (case update_cur_segment_total_cycle
             (opcode_cycle + extra_cycle + read_cycle + write_cycle) c of
        (redo, c') \<Rightarrow>
          if \<not> redo
          then Inr (False, c'\<lparr>
                 cur_segment_resident := cur_segment_resident c' \<union> set new_resident,
                 cur_segment_dirty := cur_segment_dirty c' \<union> set new_dirty,
                 cur_step_read := {}, cur_step_write := {}\<rparr>)
          else Inr (True, c'))))"

text \<open>The outer \<open>loop\<close> need not end: \<open>None\<close> is "does not return".\<close>

partial_function (option) callback_loop ::
    "(u32 set \<Rightarrow> u32 list) \<Rightarrow> nat \<Rightarrow> nat \<Rightarrow> SessionCycleCount
     \<Rightarrow> ((panic + unit) \<times> SessionCycleCount) option" where
  "callback_loop it opcode_cycle extra_cycle c =
     (case callback_round it opcode_cycle extra_cycle c of
        Inl p \<Rightarrow> Some (Inl p, c)
      | Inr (redo, c') \<Rightarrow>
          if redo then callback_loop it opcode_cycle extra_cycle c' else Some (Inr (), c'))"

definition callback_step ::
    "(u32 set \<Rightarrow> u32 list) \<Rightarrow> nat \<Rightarrow> nat \<Rightarrow> (SessionCycleCount, vm_error, unit) M" where
  "callback_step it opcode_cycle extra_cycle c =
     (case callback_loop it opcode_cycle extra_cycle c of
        None \<Rightarrow> (Hang, c)
      | Some (Inl p, c') \<Rightarrow> (Panic p, c')
      | Some (Inr _, c') \<Rightarrow> (Ok (), c'))"

section \<open>Opcode cycles\<close>

definition opcode_of :: "u32 \<Rightarrow> u32" where
  "opcode_of insn = insn AND 0x0000007f"

definition funct3_of :: "u32 \<Rightarrow> u32" where
  "funct3_of insn = drop_bit 12 (insn AND 0x00007000)"

definition funct7_of :: "u32 \<Rightarrow> u32" where
  "funct7_of insn = drop_bit 25 (insn AND 0xfe000000)"

text \<open>The match on \<open>(funct3, funct7)\<close> of the register-register opcode.\<close>

definition op_cycle_table :: "((u32 \<times> u32) \<times> nat) list" where
  "op_cycle_table =
     [((0x0, 0x00), 1), ((0x0, 0x20), 1), ((0x1, 0x00), 1), ((0x2, 0x00), 1),
      ((0x3, 0x00), 1), ((0x4, 0x00), 2), ((0x5, 0x00), 2), ((0x5, 0x20), 2),
      ((0x6, 0x00), 2), ((0x7, 0x00), 2), ((0x0, 0x01), 1), ((0x1, 0x01), 1),
      ((0x2, 0x01), 1), ((0x3, 0x01), 1), ((0x4, 0x01), 2), ((0x5, 0x01), 2),
      ((0x6, 0x01), 2), ((0x7, 0x01), 2)]"

definition get_opcode_cycle :: "u32 \<Rightarrow> vm_error + nat" where
  "get_opcode_cycle insn =
     (let opcode = opcode_of insn; funct3 = funct3_of insn; funct7 = funct7_of insn in
      if opcode = 0b0000011 then Inr 1
      else if opcode = 0b0010011 then
        (if funct3 \<in> {0x0, 0x1, 0x2, 0x3} then Inr 1
         else if funct3 \<in> {0x4, 0x5, 0x6, 0x7} then Inr 2
         else Inl IllegalInstruction)
      else if opcode = 0b0010111 then Inr 1
      else if opcode = 0b0100011 then Inr 1
      else if opcode = 0b0110011 then
        (case map_of op_cycle_table (funct3, funct7) of
           Some cycles \<Rightarrow> Inr cycles
         | None \<Rightarrow> Inl IllegalInstruction)
      else if opcode = 0b0110111 then Inr 1
      else if opcode = 0b1100011 then Inr 1
      else if opcode = 0b1100111 then Inr 1
      else if opcode = 0b1101111 then Inr 1
      else if opcode = 0b1110011 then Inr 1
      else Inl IllegalInstruction)"

section \<open>The page hash tree\<close>

text \<open>
  \<open>climbs parent root R p q\<close>: from \<open>p\<close>, following \<open>parent\<close> through nodes outside \<open>R\<close>
  and not past \<open>root\<close>, one gets to \<open>q\<close>.
\<close>

inductive climbs :: "('p \<Rightarrow> 'p option) \<Rightarrow> 'p \<Rightarrow> 'p set \<Rightarrow> 'p \<Rightarrow> 'p \<Rightarrow> bool"
  for parent root R where
  here: "p \<notin> R \<Longrightarrow> climbs parent root R p p"
| up: "p \<notin> R \<Longrightarrow> p \<noteq> root \<Longrightarrow> parent p = Some r \<Longrightarrow> climbs parent root R r q \<Longrightarrow>
     climbs parent root R p q"

inductive_cases climbsE: "climbs parent root R p q"

text \<open>A set of nodes that holds, with a node, its parent.\<close>

definition parent_closed :: "('p \<Rightarrow> 'p option) \<Rightarrow> 'p \<Rightarrow> 'p set \<Rightarrow> bool" where
  "parent_closed parent root R \<longleftrightarrow>
     (\<forall>p \<in> R. p \<noteq> root \<longrightarrow> (\<forall>q. parent p = Some q \<longrightarrow> q \<in> R))"

text \<open>The nodes that the set \<open>S\<close> of nodes needs and \<open>R\<close> does not hold.\<close>

definition uncached :: "('p \<Rightarrow> 'p option) \<Rightarrow> 'p \<Rightarrow> 'p set \<Rightarrow> 'p set \<Rightarrow> 'p set" where
  "uncached parent root R S = {q. \<exists>p \<in> S. climbs parent root R p q}"

locale hash_tree =
  fixes parent :: "'p \<Rightarrow> 'p option"
    and root :: 'p
    and valid :: "'p \<Rightarrow> bool"
    and rank :: "'p \<Rightarrow> nat"
    and cost :: "'p \<Rightarrow> nat"
    and walk :: "'p set \<Rightarrow> nat \<times> 'p list \<Rightarrow> 'p \<Rightarrow> (nat \<times> 'p list) option"
  assumes parent_rank: "parent p = Some q \<Longrightarrow> p \<noteq> root \<Longrightarrow> rank q < rank p"
    and parent_valid: "valid p \<Longrightarrow> \<exists>q. parent p = Some q \<and> valid q"
    and walk_eq: "walk R (c, new) p =
          (if p \<in> R \<or> p \<in> set new then Some (c, new)
           else if p = root then Some (c + cost p, new @ [p])
           else (case parent p of
                   None \<Rightarrow> None
                 | Some q \<Rightarrow> walk R (c + cost p, new @ [p]) q))"
begin

lemma climbs_not_in: "climbs parent root R p q \<Longrightarrow> q \<notin> R \<and> p \<notin> R"
  by (induction rule: climbs.induct) auto

lemma climbs_unfold:
  "climbs parent root R p q \<longleftrightarrow>
     p \<notin> R \<and> (q = p \<or> p \<noteq> root \<and> (\<exists>r. parent p = Some r \<and> climbs parent root R r q))"
  by (auto elim: climbsE intro: climbs.intros)

lemma climbs_parent:
  assumes "climbs parent root R p q" and "q \<noteq> root" and "parent q = Some r" and "r \<notin> R"
  shows "climbs parent root R p r"
  using assms by (induction rule: climbs.induct) (blast intro: climbs.intros)+

lemma climbs_valid: "climbs parent root R p q \<Longrightarrow> valid p \<Longrightarrow> valid q"
  by (induction rule: climbs.induct) (use parent_valid in fastforce)+

lemma parent_closed_uncached:
  assumes "parent_closed parent root R"
  shows "parent_closed parent root (R \<union> uncached parent root R S)"
  unfolding parent_closed_def
proof (intro ballI impI allI)
  fix p q
  assume p: "p \<in> R \<union> uncached parent root R S" and ne: "p \<noteq> root" and q: "parent p = Some q"
  show "q \<in> R \<union> uncached parent root R S"
  proof (cases "p \<in> R \<or> q \<in> R")
    case True
    with assms ne q show ?thesis by (auto simp: parent_closed_def)
  next
    case False
    with p obtain s where "s \<in> S" "climbs parent root R s p" by (auto simp: uncached_def)
    with False ne q show ?thesis by (auto simp: uncached_def intro: climbs_parent)
  qed
qed

text \<open>A closed set that holds a valid node holds the root.\<close>

lemma closed_root: "parent_closed parent root R \<Longrightarrow> valid p \<Longrightarrow> p \<in> R \<Longrightarrow> root \<in> R"
proof (induction "rank p" arbitrary: p rule: less_induct)
  case less
  from less.prems(2) obtain q where q: "parent p = Some q" "valid q" using parent_valid by blast
  show ?case
  proof (cases "p = root")
    case False
    with q less.prems have "q \<in> R" by (auto simp: parent_closed_def)
    then show ?thesis using less.hyps [OF parent_rank [OF q(1) False]] less.prems(1) q(2) by blast
  qed (use less.prems in simp)
qed

lemma root_uncached:
  assumes "parent_closed parent root R" and "p \<in> S" and "valid p"
  shows "root \<in> R \<union> uncached parent root R S"
proof -
  have "p \<in> R \<union> uncached parent root R S"
    using assms(2) by (auto simp: uncached_def intro: climbs.here)
  with closed_root [OF parent_closed_uncached [OF assms(1)] assms(3)] show ?thesis by blast
qed

lemma uncached_disjoint: "uncached parent root R S \<inter> R = {}"
  using climbs_not_in by (auto simp: uncached_def)

lemma uncached_Un:
  "uncached parent root R (S \<union> T) = uncached parent root R S \<union> uncached parent root R T"
  by (auto simp: uncached_def)

lemma uncached_empty [simp]: "uncached parent root R {} = {}"
  by (simp add: uncached_def)

lemma uncached_antimono: "R \<subseteq> R' \<Longrightarrow> uncached parent root R' S \<subseteq> uncached parent root R S"
proof -
  assume sub: "R \<subseteq> R'"
  have "climbs parent root R p q" if "climbs parent root R' p q" for p q
    using that sub by (induction rule: climbs.induct) (auto intro: climbs.intros)
  then show ?thesis by (auto simp: uncached_def)
qed

text \<open>
  What one walk does: it adds the nodes that are missing, each once, and charges each its
  cost. \<open>pending\<close> is the node the walk is at: the only parent that may still be missing.
\<close>

definition open_at :: "'p set \<Rightarrow> 'p list \<Rightarrow> 'p set \<Rightarrow> bool" where
  "open_at R new pending \<longleftrightarrow> distinct new \<and> set new \<inter> R = {} \<and>
     (\<forall>q \<in> set new. q \<noteq> root \<longrightarrow> (\<forall>r. parent q = Some r \<longrightarrow> r \<in> R \<union> set new \<union> pending))"

lemma climbs_in_new:
  assumes "climbs parent root R p q" and "p \<in> set new" and "open_at R new {}"
  shows "q \<in> set new"
  using assms
proof (induction rule: climbs.induct)
  case (up p r q)
  from up.prems up.hyps have "r \<in> R \<union> set new" by (auto simp: open_at_def)
  moreover have "r \<notin> R" using climbs_not_in [OF up.hyps(4)] by simp
  ultimately show ?case using up.IH up.prems(2) by blast
qed

lemma walk_result:
  assumes "walk R (c, new) p = Some (c', new')" and "open_at R new {p}"
    and "c = sum_list (map cost new)"
  shows "open_at R new' {} \<and> c' = sum_list (map cost new') \<and>
         set new' = set new \<union> {q. climbs parent root R p q}"
  using assms
proof (induction "rank p" arbitrary: p c new rule: less_induct)
  case less
  show ?case
  proof (cases "p \<in> R \<or> p \<in> set new")
    case True
    with less.prems have eq: "c' = c" "new' = new" by (auto simp: walk_eq)
    have op: "open_at R new {}"
      using less.prems(2) True by (auto simp: open_at_def)
    have "{q. climbs parent root R p q} \<subseteq> set new"
    proof (cases "p \<in> R")
      case True then show ?thesis using climbs_not_in by blast
    next
      case False
      with True have "p \<in> set new" by blast
      with op show ?thesis using climbs_in_new by blast
    qed
    with op eq less.prems(3) show ?thesis by blast
  next
    case new: False
    show ?thesis
    proof (cases "p = root")
      case True
      with new less.prems have eq: "c' = c + cost p" "new' = new @ [p]" by (auto simp: walk_eq)
      have "{q. climbs parent root R p q} = {p}"
        using True new climbs_unfold [of R root] by auto
      moreover have "open_at R new' {}"
        using less.prems(2) new True eq by (auto simp: open_at_def)
      ultimately show ?thesis using eq less.prems(3) by simp
    next
      case False
      with new less.prems(1) obtain q where q: "parent p = Some q"
        and w: "walk R (c + cost p, new @ [p]) q = Some (c', new')"
        by (auto simp: walk_eq split: option.splits)
      have "open_at R (new @ [p]) {q}"
        using less.prems(2) new False q by (auto simp: open_at_def)
      then have "open_at R new' {} \<and> c' = sum_list (map cost new') \<and>
          set new' = set (new @ [p]) \<union> {r. climbs parent root R q r}"
        using less.hyps [OF parent_rank [OF q False] w] less.prems(3) by simp
      moreover have "{r. climbs parent root R p r} = insert p {r. climbs parent root R q r}"
        using new False q climbs_unfold [of R p] by auto
      ultimately show ?thesis by auto
    qed
  qed
qed

lemma walk_total: "valid p \<Longrightarrow> \<exists>r. walk R (c, new) p = Some r"
proof (induction "rank p" arbitrary: p c new rule: less_induct)
  case less
  from less.prems obtain q where q: "parent p = Some q" "valid q" using parent_valid by blast
  show ?case
  proof (cases "p \<in> R \<or> p \<in> set new \<or> p = root")
    case True
    then show ?thesis by (auto simp: walk_eq)
  next
    case False
    then have "walk R (c, new) p = walk R (c + cost p, new @ [p]) q"
      by (subst walk_eq) (simp add: q)
    moreover have "rank q < rank p" using q False by (intro parent_rank) auto
    ultimately show ?thesis using less.hyps q(2) by simp
  qed
qed

end

definition valid_page :: "u32 \<Rightarrow> bool" where
  "valid_page p \<longleftrightarrow> unat p * 32 + 0x0D000000 < 2 ^ 32"

interpretation pages: hash_tree parent_page 219862 valid_page root_distance page_cost page_walk
proof
  show "parent_page p = Some q \<Longrightarrow> p \<noteq> 219862 \<Longrightarrow> root_distance q < root_distance p" for p q
    by (rule parent_page_nearer)
  show "\<exists>q. parent_page p = Some q \<and> valid_page q" if p: "valid_page p" for p
  proof -
    from p obtain q where q: "parent_page p = Some q"
      by (auto simp: valid_page_def parent_page_Some)
    with p have "valid_page q" using unat_parent_page [OF q] by (simp add: valid_page_def)
    with q show ?thesis by blast
  qed
qed (rule page_walk.simps)

lemma page_walks_total:
  "\<forall>p \<in> set ps. valid_page p \<Longrightarrow> \<exists>r. page_walks R acc ps = Some r"
proof (induction ps arbitrary: acc)
  case (Cons p ps)
  then obtain acc' where "page_walk R acc p = Some acc'"
    using pages.walk_total [of p R "fst acc" "snd acc"] by auto
  with Cons show ?case by simp
qed simp

lemma page_walks_result:
  assumes "page_walks R (c, new) ps = Some (c', new')" and "pages.open_at R new {}"
    and "c = sum_list (map page_cost new)"
  shows "pages.open_at R new' {} \<and> c' = sum_list (map page_cost new') \<and>
         set new' = set new \<union> uncached parent_page 219862 R (set ps)"
  using assms
proof (induction ps arbitrary: c new)
  case (Cons p ps)
  then obtain c1 new1 where w: "page_walk R (c, new) p = Some (c1, new1)"
    and ws: "page_walks R (c1, new1) ps = Some (c', new')" by (auto split: option.splits)
  have "pages.open_at R new {p}" using Cons.prems(2) by (auto simp: pages.open_at_def)
  from pages.walk_result [OF w this Cons.prems(3)] Cons.IH [OF ws]
  show ?case by (auto simp: uncached_def)
qed simp

text \<open>The pages a step must load, and what they cost, whatever the order of the walk.\<close>

definition missing_pages :: "u32 set \<Rightarrow> u32 set \<Rightarrow> u32 set" where
  "missing_pages R S = uncached parent_page 219862 R S"

lemma page_walks_spec:
  assumes "finite S" and "set ps = S" and "\<forall>p \<in> S. valid_page p"
  shows "\<exists>new. page_walks R (0, []) ps = Some (sum page_cost (missing_pages R S), new) \<and>
           set new = missing_pages R S"
proof -
  obtain c new where w: "page_walks R (0, []) ps = Some (c, new)"
    using page_walks_total [of ps R "(0, [])"] assms by auto
  have "pages.open_at R [] {}" by (simp add: pages.open_at_def)
  from page_walks_result [OF w this] have "distinct new" "c = sum_list (map page_cost new)"
      "set new = missing_pages R S"
    using assms(2) by (auto simp: pages.open_at_def missing_pages_def)
  with w show ?thesis by (simp add: sum_list_distinct_conv_sum_set)
qed

section \<open>What a step is charged\<close>

text \<open>
  \<open>it\<close> enumerates a finite set, in an order that nothing is known about.
\<close>

definition enumerates :: "(u32 set \<Rightarrow> u32 list) \<Rightarrow> bool" where
  "enumerates it \<longleftrightarrow> (\<forall>S. finite S \<longrightarrow> set (it S) = S \<and> distinct (it S))"

definition step_cycles :: "nat \<Rightarrow> nat \<Rightarrow> SessionCycleCount \<Rightarrow> nat" where
  "step_cycles opcode_cycle extra_cycle c =
     opcode_cycle + extra_cycle
     + sum page_cost (missing_pages (cur_segment_resident c) (cur_step_read c))
     + sum page_cost (missing_pages (cur_segment_dirty c) (cur_step_write c))"

definition fits :: "nat \<Rightarrow> SessionCycleCount \<Rightarrow> bool" where
  "fits n c \<longleftrightarrow>
     PRE_CYCLE + POST_CYCLE + OTHER_CONST_CYCLE + cur_segment_cycle c + n \<le> 1048576"

definition new_segment :: "SessionCycleCount \<Rightarrow> SessionCycleCount" where
  "new_segment c = c\<lparr>num_segment := num_segment c + 1, cur_segment_cycle := 0,
     cur_segment_resident := {}, cur_segment_dirty := {}\<rparr>"

definition commit_step :: "nat \<Rightarrow> SessionCycleCount \<Rightarrow> SessionCycleCount" where
  "commit_step n c = c\<lparr>
     cur_segment_cycle := cur_segment_cycle c + n,
     cur_segment_resident := cur_segment_resident c
        \<union> missing_pages (cur_segment_resident c) (cur_step_read c),
     cur_segment_dirty := cur_segment_dirty c
        \<union> missing_pages (cur_segment_dirty c) (cur_step_write c),
     cur_step_read := {}, cur_step_write := {}\<rparr>"

definition touched_ok :: "SessionCycleCount \<Rightarrow> bool" where
  "touched_ok c \<longleftrightarrow> finite (cur_step_read c) \<and> finite (cur_step_write c) \<and>
     (\<forall>p \<in> cur_step_read c \<union> cur_step_write c. unat p < 2 ^ 22)"

text \<open>
  The invariant of the counter: the pages touched are pages of 32-bit addresses, the
  segment is within its limit, the pages held are closed under parent, and every page held
  has been paid for within the segment.
\<close>

definition scc_wf :: "SessionCycleCount \<Rightarrow> bool" where
  "scc_wf c \<longleftrightarrow> touched_ok c \<and> fits 0 c \<and>
     finite (cur_segment_resident c) \<and> finite (cur_segment_dirty c) \<and>
     parent_closed parent_page 219862 (cur_segment_resident c) \<and>
     parent_closed parent_page 219862 (cur_segment_dirty c) \<and>
     sum page_cost (cur_segment_resident c) + sum page_cost (cur_segment_dirty c)
       \<le> cur_segment_cycle c"

lemma valid_page_22: "unat p < 2 ^ 22 \<Longrightarrow> valid_page p"
  by (simp add: valid_page_def)

lemma callback_round_spec:
  assumes "enumerates it" and "touched_ok c"
  shows "callback_round it oc ex c =
     (if fits (step_cycles oc ex c) c
      then Inr (False, commit_step (step_cycles oc ex c) c)
      else Inr (True, new_segment c))"
proof -
  have fin: "finite (cur_step_read c)" "finite (cur_step_write c)"
    and v: "\<forall>p \<in> cur_step_read c. valid_page p" "\<forall>p \<in> cur_step_write c. valid_page p"
    using assms(2) by (auto simp: touched_ok_def intro: valid_page_22)
  have "set (it (cur_step_read c)) = cur_step_read c" "set (it (cur_step_write c)) = cur_step_write c"
    using assms(1) fin by (auto simp: enumerates_def)
  with page_walks_spec [OF fin(1) _ v(1)] page_walks_spec [OF fin(2) _ v(2)]
  obtain newr neww where
    "page_walks (cur_segment_resident c) (0, []) (it (cur_step_read c)) =
       Some (sum page_cost (missing_pages (cur_segment_resident c) (cur_step_read c)), newr)"
    "set newr = missing_pages (cur_segment_resident c) (cur_step_read c)"
    "page_walks (cur_segment_dirty c) (0, []) (it (cur_step_write c)) =
       Some (sum page_cost (missing_pages (cur_segment_dirty c) (cur_step_write c)), neww)"
    "set neww = missing_pages (cur_segment_dirty c) (cur_step_write c)"
    by metis
  then show ?thesis
    by (auto simp: callback_round_def update_cur_segment_total_cycle_def fits_def step_cycles_def
        commit_step_def new_segment_def Let_def)
qed

lemma new_segment_simps [simp]:
  "touched_ok (new_segment c) = touched_ok c" "cur_segment_cycle (new_segment c) = 0"
  "cur_segment_resident (new_segment c) = {}" "cur_segment_dirty (new_segment c) = {}"
  "cur_step_read (new_segment c) = cur_step_read c"
  "cur_step_write (new_segment c) = cur_step_write c"
  "num_segment (new_segment c) = num_segment c + 1"
  "step_cycles oc ex (new_segment (new_segment c)) = step_cycles oc ex (new_segment c)"
  "fits n (new_segment (new_segment c)) = fits n (new_segment c)"
  by (simp_all add: new_segment_def touched_ok_def step_cycles_def fits_def)

lemma callback_loop_step:
  assumes "enumerates it" and "touched_ok c"
  shows "callback_loop it oc ex c =
     (if fits (step_cycles oc ex c) c
      then Some (Inr (), commit_step (step_cycles oc ex c) c)
      else callback_loop it oc ex (new_segment c))"
  by (subst callback_loop.simps) (simp add: callback_round_spec [OF assms])

text \<open>A step too big for an empty segment opens segments without end.\<close>

lemma callback_loop_diverges:
  assumes it: "enumerates it" and "touched_ok c"
    and "\<not> fits (step_cycles oc ex (new_segment c)) (new_segment c)"
  shows "callback_loop it oc ex (new_segment c) = None"
proof (rule ccontr)
  let ?stuck = "\<lambda>it oc ex d. enumerates it \<and> touched_ok d \<and>
      (\<exists>d'. d = new_segment d') \<and> \<not> fits (step_cycles oc ex d) d"
  assume "callback_loop it oc ex (new_segment c) \<noteq> None"
  then obtain r where "callback_loop it oc ex (new_segment c) = Some r" by blast
  then have "\<not> ?stuck it oc ex (new_segment c)"
  proof (rule callback_loop.raw_induct [where P = "\<lambda>it oc ex d r. \<not> ?stuck it oc ex d", rotated])
    fix f it oc ex d and r :: "(panic + unit) \<times> SessionCycleCount"
    assume IH: "\<And>it oc ex d r. f it oc ex d = Some r \<Longrightarrow> \<not> ?stuck it oc ex d"
      and eq: "(case callback_round it oc ex d of
        Inl p \<Rightarrow> Some (Inl p, d)
      | Inr (redo, d') \<Rightarrow> if redo then f it oc ex d' else Some (Inr (), d')) = Some r"
    show "\<not> ?stuck it oc ex d"
    proof
      assume stuck: "?stuck it oc ex d"
      with eq have "f it oc ex (new_segment d) = Some r"
        by (simp add: callback_round_spec)
      from IH [OF this] stuck show False by auto
    qed
  qed
  with assms show False by auto
qed

lemma callback_step_spec:
  assumes "enumerates it" and "touched_ok c"
  shows "callback_step it oc ex c =
     (if fits (step_cycles oc ex c) c
      then (Ok (), commit_step (step_cycles oc ex c) c)
      else if fits (step_cycles oc ex (new_segment c)) (new_segment c)
      then (Ok (), commit_step (step_cycles oc ex (new_segment c)) (new_segment c))
      else (Hang, c))"
  using callback_loop_diverges [OF assms, of oc ex] callback_loop_step [OF assms, of oc ex]
    callback_loop_step [OF assms(1), of "new_segment c" oc ex] assms(2)
  by (auto simp: callback_step_def)

lemma finite_missing_pages:
  assumes "finite S" and "\<forall>p \<in> S. valid_page p"
  shows "finite (missing_pages R S)"
proof -
  obtain ps where "set ps = S" using assms(1) finite_list by blast
  with page_walks_spec [OF assms(1) _ assms(2)] obtain new where "set new = missing_pages R S"
    by blast
  then show ?thesis by (metis finite_set)
qed

lemma missing_pages_disjoint: "missing_pages R S \<inter> R = {}"
  by (simp add: missing_pages_def pages.uncached_disjoint)

lemma parent_closed_empty [simp]: "parent_closed parent root {}"
  by (simp add: parent_closed_def)

lemma scc_wf_commit_step:
  assumes "scc_wf c" and "fits (step_cycles oc ex c) c"
  shows "scc_wf (commit_step (step_cycles oc ex c) c)"
proof -
  let ?r = "missing_pages (cur_segment_resident c) (cur_step_read c)"
  let ?w = "missing_pages (cur_segment_dirty c) (cur_step_write c)"
  have fin: "finite ?r" "finite ?w"
    using assms(1) by (auto simp: scc_wf_def touched_ok_def valid_page_22 intro!: finite_missing_pages)
  have "sum page_cost (cur_segment_resident c \<union> ?r) = sum page_cost (cur_segment_resident c) + sum page_cost ?r"
    "sum page_cost (cur_segment_dirty c \<union> ?w) = sum page_cost (cur_segment_dirty c) + sum page_cost ?w"
    using assms(1) fin missing_pages_disjoint
    by (auto simp: scc_wf_def Int_commute intro!: sum.union_disjoint)
  moreover have "parent_closed parent_page 219862 (cur_segment_resident c \<union> ?r)"
    "parent_closed parent_page 219862 (cur_segment_dirty c \<union> ?w)"
    using assms(1) by (auto simp: scc_wf_def missing_pages_def intro!: pages.parent_closed_uncached)
  ultimately show ?thesis
    using assms fin by (auto simp: scc_wf_def commit_step_def touched_ok_def fits_def step_cycles_def)
qed

lemma scc_wf_new_segment: "scc_wf c \<Longrightarrow> scc_wf (new_segment c)"
  by (simp add: scc_wf_def fits_def cfg_simps)

lemma scc_wf_default: "scc_wf default_scc"
  by (simp add: scc_wf_def default_scc_def touched_ok_def fits_def cfg_simps)

lemma scc_wf_callback_mem:
  assumes "scc_wf c" and "unat p < 2 ^ 22"
  shows "scc_wf (callback_read_mem p c)" and "scc_wf (callback_write_mem p c)"
  using assms by (auto simp: scc_wf_def callback_read_mem_def callback_write_mem_def touched_ok_def fits_def)

lemma scc_wf_callback_step:
  assumes "enumerates it" and "scc_wf c"
  shows "scc_wf (snd (callback_step it oc ex c))"
proof -
  have "touched_ok c" using assms(2) by (simp add: scc_wf_def)
  with assms show ?thesis
    by (auto simp: callback_step_spec intro: scc_wf_commit_step scc_wf_new_segment)
qed

section \<open>Properties\<close>

lemma num_segment_commit [simp]: "num_segment (commit_step n c) = num_segment c"
  by (simp add: commit_step_def)

lemma session_cycle_commit:
  "get_session_cycle (commit_step n c) = get_session_cycle c + n"
  by (simp add: get_session_cycle_def commit_step_def Let_def)

lemma session_cycle_new_segment:
  "fits 0 c \<Longrightarrow> get_session_cycle c \<le> get_session_cycle (new_segment c)"
  by (simp add: get_session_cycle_def new_segment_def fits_def Let_def)

lemma step_cycles_ge: "oc + ex \<le> step_cycles oc ex c"
  by (simp add: step_cycles_def)

lemma callback_step_cases:
  assumes "enumerates it" and "touched_ok c" and "callback_step it oc ex c = (Ok u, c')"
  obtains "c' = commit_step (step_cycles oc ex c) c" "fits (step_cycles oc ex c) c"
  | "c' = commit_step (step_cycles oc ex (new_segment c)) (new_segment c)"
    "fits (step_cycles oc ex (new_segment c)) (new_segment c)" "\<not> fits (step_cycles oc ex c) c"
  using assms(3) that by (auto simp: callback_step_spec [OF assms(1,2)] split: if_splits)

text \<open>
  Property C4. \<open>callback_step\<close> charges the opcode, the extra cycles, and once each page of the
  hash-tree paths of the pages read (written) that the segment does not hold yet. If that
  does not fit into the segment it opens one new segment and charges the step there,
  against empty page sets. If it does not fit into an empty segment either, it never
  returns.
\<close>

theorem callback_step_charges:
  assumes "enumerates it" and "scc_wf c"
  shows "callback_step it oc ex c =
     (if fits (step_cycles oc ex c) c
      then (Ok (), commit_step (step_cycles oc ex c) c)
      else if fits (step_cycles oc ex (new_segment c)) (new_segment c)
      then (Ok (), commit_step (step_cycles oc ex (new_segment c)) (new_segment c))
      else (Hang, c))"
  using assms by (intro callback_step_spec) (simp_all add: scc_wf_def)

text \<open>
  Remark. The order in which the standard library enumerates the pages of a step does not
  matter: any two orders give the same result and the same state.
\<close>

theorem callback_step_order_irrelevant:
  assumes "enumerates it" and "enumerates it'" and "scc_wf c"
  shows "callback_step it oc ex c = callback_step it' oc ex c"
  using assms by (simp add: callback_step_spec scc_wf_def)

text \<open>
  Remark. Charging a step keeps the invariant of the counter: page sets closed under the parent
  relation, their cost within the segment's cycles, the segment within its limit.
\<close>

theorem callback_step_keeps_invariant:
  assumes "enumerates it" and "scc_wf c" and "callback_step it oc ex c = (r, c')"
  shows "scc_wf c'"
  using assms by (metis scc_wf_callback_step snd_conv)

lemma callback_step_advances:
  assumes "enumerates it" and "scc_wf c" and "callback_step it oc ex c = (Ok (), c')"
  shows "get_session_cycle c + oc + ex \<le> get_session_cycle c' \<and>
         num_segment c' \<le> num_segment c + 1"
proof -
  have "touched_ok c" "fits 0 c" using assms(2) by (auto simp: scc_wf_def)
  from assms(1) this(1) assms(3) show ?thesis
    by (cases rule: callback_step_cases)
      (use step_cycles_ge [of oc ex c] step_cycles_ge [of oc ex "new_segment c"]
        session_cycle_new_segment [OF \<open>fits 0 c\<close>]
       in \<open>simp_all add: session_cycle_commit\<close>)
qed

text \<open>
  Remark. A charged step advances the session's cycle count by at least what the
  instruction itself costs, and opens at most one segment.
\<close>

theorem session_cycle_advances:
  assumes "enumerates it" and "scc_wf c" and "callback_step it oc ex c = (Ok (), c')"
  shows "get_session_cycle c + oc + ex \<le> get_session_cycle c' \<and>
         num_segment c' \<le> num_segment c + 1"
  using assms by (rule callback_step_advances)

definition up_page :: "u32 \<Rightarrow> u32" where
  "up_page p = drop_bit 10 (0x0D000000 + p * 32)"

lemma climbs_up:
  assumes "climbs parent_page 219862 R p q"
  shows "q = p \<or> climbs parent_page 219862 R (up_page p) q \<and> unat (up_page p) = 212992 + unat p div 32"
  using assms
proof (cases rule: climbs.cases)
  case (up r)
  then show ?thesis
    using unat_parent_page [of p r] parent_page_Some [of p r] by (simp add: up_page_def)
qed simp

text \<open>From a page of the guest's memory the root is at most four levels up.\<close>

lemma guest_page_chain:
  assumes "unat p \<le> 196608" and "climbs parent_page 219862 R p q"
  shows "q \<in> {p, up_page p, up_page (up_page p), up_page (up_page (up_page p)), 219862}"
proof (rule ccontr)
  assume not: "q \<notin> {p, up_page p, up_page (up_page p), up_page (up_page (up_page p)), 219862}"
  let ?r3 = "up_page (up_page (up_page p))"
  have 1: "climbs parent_page 219862 R (up_page p) q" "unat (up_page p) = 212992 + unat p div 32"
    using climbs_up [OF assms(2)] not by auto
  have 2: "climbs parent_page 219862 R (up_page (up_page p)) q" "unat (up_page (up_page p)) = 212992 + unat (up_page p) div 32"
    using climbs_up [OF 1(1)] not by auto
  have 3: "climbs parent_page 219862 R ?r3 q" "unat ?r3 = 212992 + unat (up_page (up_page p)) div 32"
    using climbs_up [OF 2(1)] not by auto
  have 4: "climbs parent_page 219862 R (up_page ?r3) q" "unat (up_page ?r3) = 212992 + unat ?r3 div 32"
    using climbs_up [OF 3(1)] not by auto
  have "unat (up_page ?r3) = 219862" using assms(1) 1(2) 2(2) 3(2) 4(2) by linarith
  then have "up_page ?r3 = 219862" using word_unat_eq_iff [of "up_page ?r3" 219862] by simp
  with 4(1) not show False using pages.climbs_unfold [of R 219862 q] by auto
qed

lemma guest_page_missing: "unat p \<le> 196608 \<Longrightarrow>
    missing_pages R {p} \<subseteq> {p, up_page p, up_page (up_page p), up_page (up_page (up_page p)), 219862}"
  using guest_page_chain by (auto simp: missing_pages_def uncached_def)

lemma page_cost_le: "page_cost p \<le> 1094"
  by (simp add: page_cost_def)

lemma guest_page_missing_bound:
  assumes "unat p \<le> 196608"
  shows "finite (missing_pages R {p})" and "card (missing_pages R {p}) \<le> 5"
    and "sum page_cost (missing_pages R {p}) \<le> 5130"
proof -
  let ?M = "missing_pages R {p}"
  let ?A = "{p, up_page p, up_page (up_page p), up_page (up_page (up_page p))}"
  have sub: "?M \<subseteq> insert 219862 ?A" using guest_page_missing [OF assms, of R] by blast
  then show "finite ?M" by (rule finite_subset) simp
  have "card ?M \<le> card (insert 219862 ?A)" using sub by (intro card_mono) auto
  also have "\<dots> \<le> 5"
    using card_length [of "[219862, p, up_page p, up_page (up_page p), up_page (up_page (up_page p))]"] by simp
  finally show "card ?M \<le> 5" .
  have "sum page_cost ?M \<le> sum page_cost (insert 219862 (?A - {219862}))"
    using sub by (intro sum_mono2) auto
  also have "\<dots> = page_cost 219862 + sum page_cost (?A - {219862})"
    by (intro sum.insert) auto
  also have "page_cost 219862 = 754" by (simp add: page_cost_def)
  also have "sum page_cost (?A - {219862}) \<le> card (?A - {219862}) * 1094"
    using sum_bounded_above [of "?A - {219862}" page_cost 1094] page_cost_le by simp
  also have "card (?A - {219862}) \<le> 4"
    using card_length [of "[p, up_page p, up_page (up_page p), up_page (up_page (up_page p))]"]
      card_mono [of ?A "?A - {219862}"] by simp
  finally show "sum page_cost ?M \<le> 5130" by simp
qed

text \<open>
  Remark. Loading one page of the guest's memory touches at most five pages of the hash tree,
  and costs at most 5130 cycles.
\<close>

theorem guest_page_walk_bounded:
  assumes "unat p \<le> 0x0C000000 div 1024"
  shows "\<exists>cycle new. page_walk R (0, []) p = Some (cycle, new) \<and> length new \<le> 5 \<and> cycle \<le> 5130"
proof -
  have le: "unat p \<le> 196608" using assms by simp
  obtain cycle new where w: "page_walk R (0, []) p = Some (cycle, new)"
    using pages.walk_total [of p R 0 "[]"] le by (auto simp: valid_page_def)
  have "distinct new" "cycle = sum_list (map page_cost new)" "set new = missing_pages R {p}"
    using page_walks_result [of R 0 "[]" "[p]" cycle new] w
    by (auto simp: pages.open_at_def missing_pages_def)
  then have "cycle = sum page_cost (missing_pages R {p})" "length new = card (missing_pages R {p})"
    by (simp_all add: sum_list_distinct_conv_sum_set distinct_card [symmetric])
  with w guest_page_missing_bound [OF le, of R] show ?thesis by auto
qed

text \<open>
  Remark (a flaw). A step that costs more than an empty segment has room for is never charged:
  the loop opens one segment after the other and does not end.
\<close>

theorem oversized_step_never_returns:
  assumes "enumerates it" and "scc_wf c" and "1046855 < ex"
  shows "callback_step it oc ex c = (Hang, c)"
proof -
  have "\<not> fits (step_cycles oc ex d) d" for d
    using assms(3) step_cycles_ge [of oc ex d] by (simp add: fits_def cfg_simps)
  with assms show ?thesis by (simp add: callback_step_spec scc_wf_def)
qed

text \<open>
  The opcodes of RV32IM: loads, stores, branches, jumps, upper immediates, immediate and
  register arithmetic, system instructions.
\<close>

definition legal_opcode :: "u32 \<Rightarrow> bool" where
  "legal_opcode insn \<longleftrightarrow>
     opcode_of insn \<in> {0x03, 0x13, 0x17, 0x23, 0x37, 0x63, 0x67, 0x6f, 0x73} \<or>
     opcode_of insn = 0x33 \<and>
       (funct7_of insn \<in> {0, 1} \<or> funct7_of insn = 0x20 \<and> funct3_of insn \<in> {0, 5})"

lemma funct3_cases:
  obtains n where "funct3_of insn = of_nat n" "n < 8"
proof -
  have "insn AND 0x7000 \<le> 0x7000" by (rule word_and_le1)
  then have "unat (insn AND 0x7000) \<le> 0x7000" by (simp add: word_le_nat_alt)
  then have "unat (funct3_of insn) < 8"
    by (simp add: funct3_of_def drop_bit_eq_div unat_div)
  then show ?thesis using that [of "unat (funct3_of insn)"] by simp
qed

text \<open>
  Remark. The cycle table is this rule: an instruction of RV32IM costs one cycle, two when it is
  an arithmetic instruction of the upper four function codes, and everything else is refused.
\<close>

theorem opcode_cycles:
  "get_opcode_cycle insn =
     (if legal_opcode insn
      then Inr (if opcode_of insn \<in> {0x13, 0x33} \<and> 4 \<le> funct3_of insn then 2 else 1)
      else Inl IllegalInstruction)"
proof -
  obtain n where n: "funct3_of insn = of_nat n" "n < 8" by (rule funct3_cases)
  then consider "funct3_of insn = 0" | "funct3_of insn = 1" | "funct3_of insn = 2"
    | "funct3_of insn = 3" | "funct3_of insn = 4" | "funct3_of insn = 5"
    | "funct3_of insn = 6" | "funct3_of insn = 7"
    by (auto simp: less_Suc_eq numeral_eq_Suc)
  then show ?thesis
    by cases (simp_all add: get_opcode_cycle_def legal_opcode_def op_cycle_table_def Let_def
        word_le_nat_alt)
qed

section \<open>Ordinary steps are charged\<close>

lemma missing_pages_Union: "missing_pages R S = (\<Union>p \<in> S. missing_pages R {p})"
  by (auto simp: missing_pages_def uncached_def)

lemma missing_pages_cost:
  assumes "finite S" and "\<forall>p \<in> S. unat p \<le> 196608"
  shows "sum page_cost (missing_pages R S) \<le> 5130 * card S"
  using assms
proof (induction S rule: finite_induct)
  case empty
  then show ?case by (simp add: missing_pages_Union [of R "{}"])
next
  case (insert p S)
  have eq: "missing_pages R (insert p S) = missing_pages R {p} \<union> missing_pages R S"
    using missing_pages_Union [of R "insert p S"] missing_pages_Union [of R S] by simp
  have "finite (missing_pages R S)"
    using insert.prems insert.hyps(1) by (intro finite_missing_pages) (auto simp: valid_page_def)
  moreover have "finite (missing_pages R {p})"
    using insert.prems by (intro guest_page_missing_bound(1)) simp
  ultimately have "sum page_cost (missing_pages R (insert p S)) \<le>
      sum page_cost (missing_pages R {p}) + sum page_cost (missing_pages R S)"
    unfolding eq by (simp add: sum_Un_nat)
  moreover have "sum page_cost (missing_pages R {p}) \<le> 5130"
    using insert.prems by (intro guest_page_missing_bound(3)) simp
  moreover have "sum page_cost (missing_pages R S) \<le> 5130 * card S"
    using insert by simp
  ultimately show ?case using insert.hyps by simp
qed

lemma charge_returns:
  assumes "enumerates it" and "scc_wf c"
    and "\<forall>p \<in> cur_step_read c \<union> cur_step_write c. unat p \<le> 196608"
    and "oc + ex + 5130 * (card (cur_step_read c) + card (cur_step_write c)) \<le> 1046855"
  shows "\<exists>c'. callback_step it oc ex c = (Ok (), c') \<and> scc_wf c' \<and>
           cur_step_read c' = {} \<and> cur_step_write c' = {}"
proof -
  have ok: "touched_ok c" and fin: "finite (cur_step_read c)" "finite (cur_step_write c)"
    using assms(2) by (auto simp: scc_wf_def touched_ok_def)
  have "step_cycles oc ex (new_segment c) \<le> oc + ex + 5130 * (card (cur_step_read c) + card (cur_step_write c))"
    using missing_pages_cost [OF fin(1), of "{}"] missing_pages_cost [OF fin(2), of "{}"] assms(3)
    by (simp add: step_cycles_def)
  then have "fits (step_cycles oc ex (new_segment c)) (new_segment c)"
    using assms(4) by (simp add: fits_def cfg_simps)
  then obtain d n where "callback_step it oc ex c = (Ok (), commit_step n d)"
    by (metis callback_step_spec [OF assms(1) ok])
  moreover from this have "scc_wf (commit_step n d)"
    using scc_wf_callback_step [OF assms(1,2)] by (metis snd_conv)
  ultimately show ?thesis by (auto simp: commit_step_def)
qed

text \<open>
  Property C37. A step that touches few pages of the guest's memory is always charged: if its own
  cycles and 5130 cycles for each page it reads or writes fit into an empty segment, the loop
  ends, and the marks of the step are gone.
\<close>

theorem ordinary_step_is_charged:
  assumes "enumerates it" and "scc_wf c"
    and "\<forall>p \<in> cur_step_read c \<union> cur_step_write c. unat p \<le> 0x0C000000 div 1024"
    and "oc + ex + 5130 * (card (cur_step_read c) + card (cur_step_write c)) \<le> 1046855"
  shows "\<exists>c'. callback_step it oc ex c = (Ok (), c') \<and> scc_wf c' \<and>
           cur_step_read c' = {} \<and> cur_step_write c' = {}"
  using assms by (intro charge_returns) simp_all

end
