(* ===== verification/Guest_Memory.thy ===== *)
theory Guest_Memory
  imports Session_Cycle
begin

text \<open>
  The guest memory of \<open>src/vm/memory.rs\<close>: pages of 256 words created on first access,
  byte, half-word and word accesses, the range check, the hardware watchpoints and the
  page callbacks into the cycle counter.
\<close>

section \<open>State\<close>

definition GUEST_MIN_MEM :: nat where
  "GUEST_MIN_MEM = 0x00000400"

definition GUEST_MAX_MEM :: nat where
  "GUEST_MAX_MEM = 0x0C000000"

lemmas guest_mem_consts [cfg_simps] = GUEST_MIN_MEM_def GUEST_MAX_MEM_def

text \<open>
  \<open>session_cycle_callback\<close> is a shared cell (\<open>Rc<RefCell<..>>\<close>); the model keeps its
  contents here, in its one owner that writes it on every access, and the simulator reads
  the cell through this field. A page is an array of 256 words.
\<close>

record Memory =
  page_map :: "u32 \<rightharpoonup> u32 list"
  hw_watchpoints :: "(u32 \<times> u32 \<times> WatchKind) list"
  watch_trigger :: "(WatchKind \<times> u32) option"
  session_cycle_callback :: "SessionCycleCount option"

definition default_memory :: Memory where
  "default_memory = \<lparr>page_map = Map.empty, hw_watchpoints = [], watch_trigger = None,
     session_cycle_callback = None\<rparr>"

definition with_session_cycle_callback :: "SessionCycleCount \<Rightarrow> Memory \<Rightarrow> Memory" where
  "with_session_cycle_callback callback m = m\<lparr>session_cycle_callback := Some callback\<rparr>"

section \<open>Watchpoints\<close>

text \<open>The loop over the watchpoints; the additions panic on overflow.\<close>

fun check_entries ::
    "(u32 \<times> u32 \<times> WatchKind) list \<Rightarrow> u32 \<Rightarrow> u32 \<Rightarrow> bool \<Rightarrow> panic + (WatchKind \<times> u32) option"
  where
  "check_entries [] addr len is_write = Inr None"
| "check_entries ((watch_start, watch_len, kind) # entries) addr len is_write =
     (if is_write \<and> kind = WatchRead then check_entries entries addr len is_write
      else if \<not> is_write \<and> kind = WatchWrite then check_entries entries addr len is_write
      else (case checked_add32 watch_start watch_len of
              None \<Rightarrow> Inl ArithOverflow
            | Some watch_end \<Rightarrow>
           (case checked_add32 addr len of
              None \<Rightarrow> Inl ArithOverflow
            | Some action_end \<Rightarrow>
                if addr < watch_start \<and> action_end \<ge> watch_start then Inr (Some (kind, addr))
                else if addr \<ge> watch_start \<and> addr < watch_end then Inr (Some (kind, addr))
                else check_entries entries addr len is_write)))"

definition check_watchpoints :: "u32 \<Rightarrow> u32 \<Rightarrow> bool \<Rightarrow> (Memory, vm_error, unit) M" where
  "check_watchpoints addr len is_write m =
     (if watch_trigger m \<noteq> None then (Ok (), m)
      else (case check_entries (hw_watchpoints m) addr len is_write of
              Inl p \<Rightarrow> (Panic p, m)
            | Inr None \<Rightarrow> (Ok (), m)
            | Inr (Some t) \<Rightarrow> (Ok (), m\<lparr>watch_trigger := Some t\<rparr>)))"

section \<open>Accesses\<close>

definition access_len :: "MemAccessSize \<Rightarrow> u32" where
  "access_len sz = (case sz of Byte \<Rightarrow> 1 | HalfWord \<Rightarrow> 2 | Word \<Rightarrow> 4)"

text \<open>What each access size takes from a word, and what it puts into it.\<close>

fun extract_word :: "MemAccessSize \<Rightarrow> nat \<Rightarrow> u32 \<Rightarrow> u32" where
  "extract_word Byte page_offset word =
     (if page_offset mod 4 = 0 then word AND 0xff
      else if page_offset mod 4 = 1 then drop_bit 8 word AND 0xff
      else if page_offset mod 4 = 2 then drop_bit 16 word AND 0xff
      else drop_bit 24 word AND 0xff)"
| "extract_word HalfWord page_offset word =
     (if page_offset mod 4 = 2 then drop_bit 16 word AND 0xffff else word AND 0xffff)"
| "extract_word Word page_offset word = word"

fun merge_word :: "MemAccessSize \<Rightarrow> nat \<Rightarrow> u32 \<Rightarrow> u32 \<Rightarrow> u32" where
  "merge_word Byte page_offset word store_data =
     (if page_offset mod 4 = 0 then (word AND 0xffffff00) OR (store_data AND 0xff)
      else if page_offset mod 4 = 1
        then (word AND 0xffff00ff) OR push_bit 8 (store_data AND 0xff)
      else if page_offset mod 4 = 2
        then (word AND 0xff00ffff) OR push_bit 16 (store_data AND 0xff)
      else (word AND 0x00ffffff) OR push_bit 24 (store_data AND 0xff))"
| "merge_word HalfWord page_offset word store_data =
     (if page_offset mod 4 = 2
      then (word AND 0x0000ffff) OR push_bit 16 (store_data AND 0xffff)
      else (word AND 0xffff0000) OR (store_data AND 0xffff))"
| "merge_word Word page_offset word store_data = store_data"

text \<open>\<open>self.map.get(&page_idx).unwrap()[i]\<close> and the assignment to it.\<close>

definition get_word :: "u32 \<Rightarrow> nat \<Rightarrow> (Memory, vm_error, u32) M" where
  "get_word page_idx i m =
     (case page_map m page_idx of
        None \<Rightarrow> (Panic UnwrapFailed, m)
      | Some page \<Rightarrow> if i < length page then (Ok (page ! i), m) else (Panic IndexOutOfBounds, m))"

definition set_word :: "u32 \<Rightarrow> nat \<Rightarrow> u32 \<Rightarrow> (Memory, vm_error, unit) M" where
  "set_word page_idx i new_word m =
     (case page_map m page_idx of
        None \<Rightarrow> (Panic UnwrapFailed, m)
      | Some page \<Rightarrow>
          if i < length page
          then (Ok (), m\<lparr>page_map := (page_map m)(page_idx \<mapsto> page[i := new_word])\<rparr>)
          else (Panic IndexOutOfBounds, m))"

definition ensure_page :: "u32 \<Rightarrow> Memory \<Rightarrow> Memory" where
  "ensure_page page_idx m =
     (if page_map m page_idx = None
      then m\<lparr>page_map := (page_map m)(page_idx \<mapsto> replicate 256 0)\<rparr>
      else m)"

definition run_callback ::
    "(u32 \<Rightarrow> SessionCycleCount \<Rightarrow> SessionCycleCount) \<Rightarrow> bool \<Rightarrow> u32 \<Rightarrow> Memory \<Rightarrow> Memory" where
  "run_callback callback privileged page_idx m =
     (case session_cycle_callback m of
        None \<Rightarrow> m
      | Some c \<Rightarrow>
          if privileged then m
          else m\<lparr>session_cycle_callback := Some (callback page_idx c)\<rparr>)"

definition out_of_range :: "u32 \<Rightarrow> bool" where
  "out_of_range addr \<longleftrightarrow> unat addr < GUEST_MIN_MEM \<or> unat addr > GUEST_MAX_MEM"

definition read_mem_with_privileges ::
    "u32 \<Rightarrow> MemAccessSize \<Rightarrow> bool \<Rightarrow> (Memory, vm_error, u32 option) M" where
  "read_mem_with_privileges addr sz privileged =
     (if out_of_range addr then ret None
      else
        (let page_idx = drop_bit 10 addr; page_offset = unat (addr AND 0x3ff) in
         bindM (modM (ensure_page page_idx)) (\<lambda>_.
         bindM (modM (run_callback callback_read_mem privileged page_idx)) (\<lambda>_.
         bindM (if privileged then ret () else check_watchpoints addr (access_len sz) False) (\<lambda>_.
         bindM (get_word page_idx (page_offset div 4)) (\<lambda>word.
         ret (Some (extract_word sz page_offset word))))))))"

definition write_mem_with_privileges ::
    "u32 \<Rightarrow> MemAccessSize \<Rightarrow> u32 \<Rightarrow> bool \<Rightarrow> (Memory, vm_error, bool) M" where
  "write_mem_with_privileges addr sz store_data privileged =
     (if out_of_range addr then ret False
      else
        (let page_idx = drop_bit 10 addr; page_offset = unat (addr AND 0x3ff) in
         bindM (modM (ensure_page page_idx)) (\<lambda>_.
         bindM (modM (run_callback callback_write_mem privileged page_idx)) (\<lambda>_.
         bindM (if privileged then ret () else check_watchpoints addr (access_len sz) True) (\<lambda>_.
         bindM (get_word page_idx (page_offset div 4)) (\<lambda>word.
         bindM (set_word page_idx (page_offset div 4) (merge_word sz page_offset word store_data)) (\<lambda>_.
         ret True)))))))"

text \<open>The \<open>rrs_lib::Memory\<close> implementation: the guest's own accesses.\<close>

definition read_mem :: "u32 \<Rightarrow> MemAccessSize \<Rightarrow> (Memory, vm_error, u32 option) M" where
  "read_mem addr sz = read_mem_with_privileges addr sz False"

definition write_mem :: "u32 \<Rightarrow> MemAccessSize \<Rightarrow> u32 \<Rightarrow> (Memory, vm_error, bool) M" where
  "write_mem addr sz store_data = write_mem_with_privileges addr sz store_data False"

section \<open>The memory as bytes\<close>

text \<open>The abstraction: one byte per address, zero where no page exists yet.\<close>

definition word_at :: "Memory \<Rightarrow> u32 \<Rightarrow> nat \<Rightarrow> u32" where
  "word_at m page_idx i = (case page_map m page_idx of None \<Rightarrow> 0 | Some page \<Rightarrow> page ! i)"

definition page_offset_of :: "u32 \<Rightarrow> nat" where
  "page_offset_of a = unat (a AND 0x3ff)"

definition byte_at :: "Memory \<Rightarrow> u32 \<Rightarrow> u8" where
  "byte_at m a = byte_of (page_offset_of a mod 4) (word_at m (drop_bit 10 a) (page_offset_of a div 4))"

text \<open>
  The invariant: every page has its 256 words, and a registered cycle counter satisfies
  its own invariant. \<open>watchpoints_fit\<close>: no watched range wraps around.
\<close>

definition mem_wf :: "Memory \<Rightarrow> bool" where
  "mem_wf m \<longleftrightarrow> (\<forall>p page. page_map m p = Some page \<longrightarrow> length page = 256) \<and>
     (\<forall>c. session_cycle_callback m = Some c \<longrightarrow> scc_wf c)"

definition watchpoints_fit :: "Memory \<Rightarrow> bool" where
  "watchpoints_fit m \<longleftrightarrow> (\<forall>(a, l, k) \<in> set (hw_watchpoints m). unat a + unat l < 2 ^ 32)"

lemma page_offset_of: "page_offset_of a = unat a mod 1024"
  by (simp add: page_offset_of_def unat_and_3ff)

lemma page_offset_bounds [simp]: "page_offset_of a < 1024" "page_offset_of a div 4 < 256"
  by (simp_all add: page_offset_of div_less_iff_less_mult)

lemma word_at_ensure_page [simp]:
  "i < 256 \<Longrightarrow> word_at (ensure_page p m) q i = word_at m q i"
  by (simp add: word_at_def ensure_page_def)

lemma byte_at_ensure_page [simp]: "byte_at (ensure_page p m) = byte_at m"
  by (simp add: byte_at_def fun_eq_iff)

lemma mem_wf_ensure_page [simp]: "mem_wf m \<Longrightarrow> mem_wf (ensure_page p m)"
  by (simp add: mem_wf_def ensure_page_def)

lemma ensure_page_simps [simp]:
  "hw_watchpoints (ensure_page p m) = hw_watchpoints m"
  "watch_trigger (ensure_page p m) = watch_trigger m"
  "session_cycle_callback (ensure_page p m) = session_cycle_callback m"
  "page_map (ensure_page p m) p \<noteq> None"
  by (simp_all add: ensure_page_def)

lemma run_callback_simps [simp]:
  "page_map (run_callback f pr p m) = page_map m"
  "hw_watchpoints (run_callback f pr p m) = hw_watchpoints m"
  "watch_trigger (run_callback f pr p m) = watch_trigger m"
  "byte_at (run_callback f pr p m) = byte_at m"
  "word_at (run_callback f pr p m) = word_at m"
  by (simp_all add: run_callback_def byte_at_def word_at_def fun_eq_iff split: option.split)

lemma page_idx_small: "unat (drop_bit 10 (a :: u32)) < 2 ^ 22"
  using unat_lt_2p32 [of a] by (simp add: unat_shr10 div_less_iff_less_mult)

lemma mem_wf_run_callback:
  assumes "mem_wf m" and "f = callback_read_mem \<or> f = callback_write_mem"
  shows "mem_wf (run_callback f pr (drop_bit 10 a) m)"
  using assms page_idx_small [of a]
  by (auto simp: mem_wf_def run_callback_def intro: scc_wf_callback_mem split: option.split)

subsection \<open>Lanes\<close>

text \<open>The first of the bytes of a word that an access of the given size touches.\<close>

fun lane :: "MemAccessSize \<Rightarrow> nat \<Rightarrow> nat" where
  "lane Byte off = off mod 4"
| "lane HalfWord off = (if off mod 4 = 2 then 2 else 0)"
| "lane Word off = 0"

fun lane_count :: "MemAccessSize \<Rightarrow> nat" where
  "lane_count Byte = 1"
| "lane_count HalfWord = 2"
| "lane_count Word = 4"

lemma mod4_cases: obtains "(n :: nat) mod 4 = 0" | "n mod 4 = 1" | "n mod 4 = 2" | "n mod 4 = 3"
  using mod_less_divisor [of 4 n] by fastforce

lemma lane_bounds: "lane sz off + lane_count sz \<le> 4"
  using mod_less_divisor [of 4 off] by (cases sz) auto

lemma less4_cases: obtains "\<not> (k :: nat) < 4" | "k = 0" | "k = 1" | "k = 2" | "k = 3"
  by fastforce

lemma masks:
  "(0xffffff00 :: u32) = NOT (mask 8)" "(0xffff00ff :: u32) = NOT (push_bit 8 (mask 8))"
  "(0xff00ffff :: u32) = NOT (push_bit 16 (mask 8))" "(0x00ffffff :: u32) = NOT (push_bit 24 (mask 8))"
  "(0xffff0000 :: u32) = NOT (mask 16)" "(0x0000ffff :: u32) = mask 16" "(0xff :: u32) = mask 8"
  by (simp_all add: mask_eq_exp_minus_1)

lemma byte_of_extract:
  assumes "k < 4"
  shows "byte_of k (extract_word sz off w) =
     (if k < lane_count sz then byte_of (lane sz off + k) w else 0)"
proof (cases sz)
  case Byte
  show ?thesis
    by (cases off rule: mod4_cases; cases k rule: less4_cases; rule bit_word_eqI)
      (use assms in \<open>auto simp: Byte byte_of_def bit_simps masks\<close>)
next
  case HalfWord
  show ?thesis
    by (cases k rule: less4_cases; cases "off mod 4 = 2"; rule bit_word_eqI)
      (use assms in \<open>auto simp: HalfWord byte_of_def bit_simps masks\<close>)
next
  case Word
  with assms show ?thesis by simp
qed

lemma byte_of_merge:
  assumes "k < 4"
  shows "byte_of k (merge_word sz off w d) =
     (if lane sz off \<le> k \<and> k < lane sz off + lane_count sz then byte_of (k - lane sz off) d
      else byte_of k w)"
proof (cases sz)
  case Byte
  show ?thesis
    by (cases off rule: mod4_cases; cases k rule: less4_cases; rule bit_word_eqI)
      (use assms in \<open>auto simp: Byte byte_of_def bit_simps masks\<close>)
next
  case HalfWord
  show ?thesis
    by (cases k rule: less4_cases; cases "off mod 4 = 2"; rule bit_word_eqI)
      (use assms in \<open>auto simp: HalfWord byte_of_def bit_simps masks\<close>)
next
  case Word
  with assms show ?thesis by simp
qed

section \<open>Watchpoints: what fires\<close>

fun watches :: "WatchKind \<Rightarrow> bool \<Rightarrow> bool" where
  "watches WatchWrite is_write = is_write"
| "watches WatchRead is_write = (\<not> is_write)"
| "watches WatchReadWrite is_write = True"

text \<open>The byte ranges \<open>[a, a + len)\<close> and \<open>[ws, ws + wl)\<close> share a byte.\<close>

definition ranges_meet :: "nat \<Rightarrow> nat \<Rightarrow> nat \<Rightarrow> nat \<Rightarrow> bool" where
  "ranges_meet a len ws wl \<longleftrightarrow> (\<exists>x. a \<le> x \<and> x < a + len \<and> ws \<le> x \<and> x < ws + wl)"

lemma ranges_meet_iff: "ranges_meet a len ws wl \<longleftrightarrow> max a ws < min (a + len) (ws + wl)"
proof
  assume "max a ws < min (a + len) (ws + wl)"
  then show "ranges_meet a len ws wl" unfolding ranges_meet_def by (intro exI [of _ "max a ws"]) auto
qed (auto simp: ranges_meet_def)

definition fires :: "u32 \<Rightarrow> u32 \<Rightarrow> bool \<Rightarrow> u32 \<times> u32 \<times> WatchKind \<Rightarrow> bool" where
  "fires addr len is_write = (\<lambda>(ws, wl, kind). watches kind is_write \<and>
     (unat addr < unat ws \<and> unat ws \<le> unat addr + unat len \<or>
      unat ws \<le> unat addr \<and> unat addr < unat ws + unat wl))"

lemma check_entries_find:
  assumes "\<forall>(a, l, k) \<in> set es. unat a + unat l < 2 ^ 32" and "unat addr + unat len < 2 ^ 32"
  shows "check_entries es addr len w =
     Inr (map_option (\<lambda>(_, _, kind). (kind, addr)) (find (fires addr len w) es))"
  using assms(1)
proof (induction es)
  case (Cons e es)
  obtain ws wl kind where e: "e = (ws, wl, kind)" by (cases e)
  with Cons.prems have le: "unat ws + unat wl < 4294967296" by simp
  then have "unat (ws + wl) = unat ws + unat wl" "unat (addr + len) = unat addr + unat len"
    using assms(2) by (simp_all add: unat_add32)
  with le assms(2) Cons e show ?case
    by (cases kind) (auto simp: checked_add32_def fires_def word_less_nat_alt word_le_nat_alt)
qed simp

text \<open>The trigger after a check: the first watchpoint that fires, unless one is pending.\<close>

definition trigger_after :: "Memory \<Rightarrow> u32 \<Rightarrow> u32 \<Rightarrow> bool \<Rightarrow> (WatchKind \<times> u32) option" where
  "trigger_after m addr len is_write =
     (case watch_trigger m of
        Some t \<Rightarrow> Some t
      | None \<Rightarrow> map_option (\<lambda>(_, _, kind). (kind, addr))
                  (find (fires addr len is_write) (hw_watchpoints m)))"

lemma check_watchpoints_spec:
  assumes "watchpoints_fit m" and "unat addr + unat len < 2 ^ 32"
  shows "check_watchpoints addr len w m = (Ok (), m\<lparr>watch_trigger := trigger_after m addr len w\<rparr>)"
  using check_entries_find [of "hw_watchpoints m" addr len w] assms
  by (auto simp: check_watchpoints_def watchpoints_fit_def trigger_after_def split: option.split)

definition access_trigger ::
    "bool \<Rightarrow> Memory \<Rightarrow> u32 \<Rightarrow> MemAccessSize \<Rightarrow> bool \<Rightarrow> (WatchKind \<times> u32) option" where
  "access_trigger pr m a sz w =
     (if pr then watch_trigger m else trigger_after m a (access_len sz) w)"

section \<open>What an access does\<close>

lemma watch_trigger_simps [simp]:
  "byte_at (m\<lparr>watch_trigger := t\<rparr>) = byte_at m" "mem_wf (m\<lparr>watch_trigger := t\<rparr>) = mem_wf m"
  "watchpoints_fit (m\<lparr>watch_trigger := t\<rparr>) = watchpoints_fit m"
  "word_at (m\<lparr>watch_trigger := t\<rparr>) = word_at m"
  by (simp_all add: byte_at_def word_at_def mem_wf_def watchpoints_fit_def fun_eq_iff)

lemma same_byte_iff:
  "a = b \<longleftrightarrow> drop_bit 10 a = drop_bit 10 (b :: u32) \<and> page_offset_of a div 4 = page_offset_of b div 4
     \<and> page_offset_of a mod 4 = page_offset_of b mod 4"
proof (intro iffI; (elim conjE)?)
  assume d: "drop_bit 10 a = drop_bit 10 b" "page_offset_of a div 4 = page_offset_of b div 4"
    "page_offset_of a mod 4 = page_offset_of b mod 4"
  then have "page_offset_of a = page_offset_of b" by (metis div_mult_mod_eq)
  moreover from d(1) have "unat a div 1024 = unat b div 1024" by (metis unat_shr10)
  ultimately have "unat a = unat b" unfolding page_offset_of by (metis div_mult_mod_eq)
  then show "a = b" by (simp add: word_unat_eq_iff)
qed simp_all

text \<open>The state an access leaves, before the word is read or written.\<close>

definition touch ::
    "(u32 \<Rightarrow> SessionCycleCount \<Rightarrow> SessionCycleCount) \<Rightarrow> bool \<Rightarrow> u32 \<Rightarrow> Memory \<Rightarrow> Memory" where
  "touch f privileged addr m =
     run_callback f privileged (drop_bit 10 addr) (ensure_page (drop_bit 10 addr) m)"

lemma touch_simps [simp]:
  "byte_at (touch f pr a m) = byte_at m" "hw_watchpoints (touch f pr a m) = hw_watchpoints m"
  "watch_trigger (touch f pr a m) = watch_trigger m"
  "page_map (touch f pr a m) (drop_bit 10 a) \<noteq> None"
  "i < 256 \<Longrightarrow> word_at (touch f pr a m) p i = word_at m p i"
  "watchpoints_fit (touch f pr a m) = watchpoints_fit m"
  by (simp_all add: touch_def watchpoints_fit_def)

lemma mem_wf_touch:
  "mem_wf m \<Longrightarrow> f = callback_read_mem \<or> f = callback_write_mem \<Longrightarrow> mem_wf (touch f pr a m)"
  by (simp add: touch_def mem_wf_run_callback)

lemma read_mem_unfold:
  "read_mem_with_privileges a sz pr m =
     (if out_of_range a then (Ok None, m)
      else bindM (if pr then ret () else check_watchpoints a (access_len sz) False) (\<lambda>_.
           bindM (get_word (drop_bit 10 a) (page_offset_of a div 4)) (\<lambda>w.
           ret (Some (extract_word sz (page_offset_of a) w))))
             (touch callback_read_mem pr a m))"
  by (simp add: read_mem_with_privileges_def Let_def bindM_def modM_def ret_def touch_def
      flip: page_offset_of_def)

lemma write_mem_unfold:
  "write_mem_with_privileges a sz v pr m =
     (if out_of_range a then (Ok False, m)
      else bindM (if pr then ret () else check_watchpoints a (access_len sz) True) (\<lambda>_.
           bindM (get_word (drop_bit 10 a) (page_offset_of a div 4)) (\<lambda>w.
           bindM (set_word (drop_bit 10 a) (page_offset_of a div 4)
                    (merge_word sz (page_offset_of a) w v)) (\<lambda>_.
           ret True))) (touch callback_write_mem pr a m))"
  by (simp add: write_mem_with_privileges_def Let_def bindM_def modM_def ret_def touch_def
      flip: page_offset_of_def)

lemma get_word_touched:
  assumes "mem_wf m" and "page_map m p \<noteq> None" and "i < 256"
  shows "get_word p i m = (Ok (word_at m p i), m)"
  using assms by (auto simp: get_word_def mem_wf_def word_at_def)

lemma in_range_no_wrap: "\<not> out_of_range a \<Longrightarrow> unat a + unat (access_len sz) < 2 ^ 32"
  by (cases sz) (simp_all add: out_of_range_def access_len_def cfg_simps)

lemma trigger_after_touch [simp]: "trigger_after (touch f pr a m) b len w = trigger_after m b len w"
  by (simp add: trigger_after_def split: option.split)

lemma check_touched:
  assumes "pr \<or> watchpoints_fit m" and "\<not> out_of_range a"
  shows "(if pr then ret () else check_watchpoints a (access_len sz) w) (touch f pr a m)
      = (Ok (), (touch f pr a m)\<lparr>watch_trigger := access_trigger pr m a sz w\<rparr>)"
proof (cases pr)
  case False
  with assms(1) have "watchpoints_fit (touch f pr a m)" by simp
  from check_watchpoints_spec [OF this in_range_no_wrap [OF assms(2)]] False
  show ?thesis by (simp add: access_trigger_def)
next
  case True
  then have "access_trigger pr m a sz w = watch_trigger (touch f pr a m)"
    by (simp add: access_trigger_def)
  with True show ?thesis by (simp add: ret_def)
qed

text \<open>Reading: the value, and the state up to the trigger.\<close>

lemma read_mem_spec:
  assumes "mem_wf m" and "pr \<or> watchpoints_fit m" and "\<not> out_of_range a"
  shows "read_mem_with_privileges a sz pr m =
     (Ok (Some (extract_word sz (page_offset_of a)
                  (word_at m (drop_bit 10 a) (page_offset_of a div 4)))),
      (touch callback_read_mem pr a m)\<lparr>watch_trigger := access_trigger pr m a sz False\<rparr>)"
proof -
  let ?m = "touch callback_read_mem pr a m" and ?t = "access_trigger pr m a sz False"
  have t: "(if pr then ret () else check_watchpoints a (access_len sz) False) ?m
      = (Ok (), ?m\<lparr>watch_trigger := ?t\<rparr>)"
    by (rule check_touched [OF assms(2,3)])
  have "get_word (drop_bit 10 a) (page_offset_of a div 4) (?m\<lparr>watch_trigger := ?t\<rparr>) =
      (Ok (word_at m (drop_bit 10 a) (page_offset_of a div 4)), ?m\<lparr>watch_trigger := ?t\<rparr>)"
    using assms(1) by (subst get_word_touched) (auto simp: mem_wf_touch)
  then show ?thesis
    by (simp add: read_mem_unfold bindM_def t assms(3) ret_def split del: if_split)
qed

text \<open>Writing: the bytes of the lane, and nothing else.\<close>

definition put_word :: "u32 \<Rightarrow> nat \<Rightarrow> u32 \<Rightarrow> Memory \<Rightarrow> Memory" where
  "put_word p i w m = m\<lparr>page_map := (page_map m)(p \<mapsto> (the (page_map m p))[i := w])\<rparr>"

lemma put_word_simps [simp]:
  "hw_watchpoints (put_word p i w m) = hw_watchpoints m"
  "session_cycle_callback (put_word p i w m) = session_cycle_callback m"
  "watch_trigger (put_word p i w m) = watch_trigger m"
  "watchpoints_fit (put_word p i w m) = watchpoints_fit m"
  by (simp_all add: put_word_def watchpoints_fit_def)

lemma mem_wf_put_word: "mem_wf m \<Longrightarrow> page_map m p \<noteq> None \<Longrightarrow> mem_wf (put_word p i w m)"
  by (auto simp: mem_wf_def put_word_def)

lemma word_at_put_word:
  assumes "mem_wf m" and "page_map m p \<noteq> None" and "i < 256"
  shows "word_at (put_word p i w m) q j = (if q = p \<and> j = i then w else word_at m q j)"
  using assms by (auto simp: word_at_def put_word_def mem_wf_def split: option.split)

lemma set_word_touched:
  assumes "mem_wf m" and "page_map m p \<noteq> None" and "i < 256"
  shows "set_word p i w m = (Ok (), put_word p i w m)"
proof -
  obtain page where "page_map m p = Some page" using assms(2) by blast
  with assms(1,3) show ?thesis by (auto simp: set_word_def put_word_def mem_wf_def)
qed

lemma write_mem_spec:
  assumes "mem_wf m" and "pr \<or> watchpoints_fit m" and "\<not> out_of_range a"
  shows "write_mem_with_privileges a sz v pr m =
     (Ok True,
      put_word (drop_bit 10 a) (page_offset_of a div 4)
        (merge_word sz (page_offset_of a) (word_at m (drop_bit 10 a) (page_offset_of a div 4)) v)
        ((touch callback_write_mem pr a m)\<lparr>watch_trigger := access_trigger pr m a sz True\<rparr>))"
proof -
  let ?m = "touch callback_write_mem pr a m" and ?t = "access_trigger pr m a sz True"
  have t: "(if pr then ret () else check_watchpoints a (access_len sz) True) ?m
      = (Ok (), ?m\<lparr>watch_trigger := ?t\<rparr>)"
    by (rule check_touched [OF assms(2,3)])
  let ?mt = "?m\<lparr>watch_trigger := ?t\<rparr>"
  have wf: "mem_wf ?mt" and pg: "page_map ?mt (drop_bit 10 a) \<noteq> None"
    using assms(1) by (auto simp: mem_wf_touch)
  have "get_word (drop_bit 10 a) (page_offset_of a div 4) ?mt =
      (Ok (word_at m (drop_bit 10 a) (page_offset_of a div 4)), ?mt)"
    using get_word_touched [OF wf pg, of "page_offset_of a div 4"] by simp
  moreover have "set_word (drop_bit 10 a) (page_offset_of a div 4) w ?mt =
      (Ok (), put_word (drop_bit 10 a) (page_offset_of a div 4) w ?mt)" for w
    using set_word_touched [OF wf pg, of "page_offset_of a div 4"] by simp
  ultimately show ?thesis
    by (simp add: write_mem_unfold bindM_def t assms(3) ret_def split del: if_split)
qed

section \<open>Accesses on bytes\<close>

definition aligned :: "MemAccessSize \<Rightarrow> u32 \<Rightarrow> bool" where
  "aligned sz a \<longleftrightarrow> unat a mod lane_count sz = 0"

lemma lane_aligned:
  assumes "aligned sz a" and "k < lane_count sz"
  shows "unat a mod 4 + k < 4" and "lane sz (unat a) = unat a mod 4"
proof -
  have half: "(n :: nat) mod 2 = 0 \<Longrightarrow> n mod 4 = 0 \<or> n mod 4 = 2" for n by presburger
  show "unat a mod 4 + k < 4" "lane sz (unat a) = unat a mod 4"
    using assms half [of "unat a"] mod_less_divisor [of 4 "unat a"]
    by (cases sz; auto simp: aligned_def)+
qed

lemma same_word_iff:
  "drop_bit 10 b = drop_bit 10 a \<and> page_offset_of b div 4 = page_offset_of a div 4
     \<longleftrightarrow> unat b div 4 = unat a div 4"
proof -
  have "drop_bit 10 b = drop_bit 10 a \<longleftrightarrow> unat b div 1024 = unat a div 1024"
    by (simp add: word_unat_eq_iff unat_shr10)
  moreover have "n mod 1024 div 4 = n div 4 mod 256" "n div 1024 = n div 4 div 256" for n :: nat
    using mod_mult2_eq [of n 4 256] by (simp_all add: div_mult2_eq [of n 4 256, simplified])
  ultimately show ?thesis unfolding page_offset_of by (metis div_mult_mod_eq)
qed

lemma lane_page_offset [simp]: "lane sz (page_offset_of a) = lane sz (unat a)"
  by (cases sz) (simp_all add: page_offset_of mod_mod_cancel)

lemma page_offset_mod4 [simp]: "page_offset_of a mod 4 = unat a mod 4"
  by (simp add: page_offset_of mod_mod_cancel)

lemma aligned_nat:
  assumes "(n :: nat) mod 4 + k < 4"
  shows "(n + k) div 4 = n div 4" and "(n + k) mod 4 = n mod 4 + k"
proof -
  obtain q r where n: "n = 4 * q + r" "r < 4" using mult_div_mod_eq [of 4 n] by (metis mod_less_divisor zero_less_numeral)
  with assms have "r + k < 4" by simp
  with n show "(n + k) div 4 = n div 4" and "(n + k) mod 4 = n mod 4 + k"
    by (simp_all add: add.assoc)
qed

lemma aligned_no_wrap:
  assumes "aligned sz a" and "k < lane_count sz"
  shows "unat (a + of_nat k) = unat a + k"
proof -
  have "unat a div 4 < 1073741824"
    using unat_lt_2p32 [of a] by (simp add: div_less_iff_less_mult)
  then have "unat a + k < 4294967296"
    using lane_aligned(1) [OF assms] div_mult_mod_eq [of "unat a" 4] by linarith
  moreover have "k < 4" using lane_aligned(1) [OF assms] by simp
  ultimately show ?thesis by (simp add: unat_add32)
qed

lemma aligned_lane:
  assumes "aligned sz a" and "k < lane_count sz"
  shows "unat (a + of_nat k) div 4 = unat a div 4"
    and "unat (a + of_nat k) mod 4 = lane sz (unat a) + k"
  unfolding aligned_no_wrap [OF assms] lane_aligned(2) [OF assms]
  using aligned_nat [OF lane_aligned(1) [OF assms]] by simp_all

lemma byte_at_lane:
  assumes "aligned sz a" and "k < lane_count sz"
  shows "byte_at m (a + of_nat k) =
    byte_of (lane sz (page_offset_of a) + k) (word_at m (drop_bit 10 a) (page_offset_of a div 4))"
  using aligned_lane [OF assms] same_word_iff [of "a + of_nat k" a] by (simp add: byte_at_def)

lemma byte_at_put_word:
  assumes "mem_wf m" and "page_map m (drop_bit 10 a) \<noteq> None"
  shows "byte_at (put_word (drop_bit 10 a) (page_offset_of a div 4) w m) b =
    (if drop_bit 10 b = drop_bit 10 a \<and> page_offset_of b div 4 = page_offset_of a div 4
     then byte_of (page_offset_of b mod 4) w else byte_at m b)"
  using assms by (simp add: byte_at_def word_at_put_word)

text \<open>The bytes after a write: those of the lane, of the word the address is in.\<close>

definition written ::
    "(u32 \<Rightarrow> u8) \<Rightarrow> MemAccessSize \<Rightarrow> u32 \<Rightarrow> u32 \<Rightarrow> u32 \<Rightarrow> u8" where
  "written f sz a v b =
     (if unat b div 4 = unat a div 4 \<and> lane sz (unat a) \<le> unat b mod 4 \<and>
         unat b mod 4 < lane sz (unat a) + lane_count sz
      then byte_of (unat b mod 4 - lane sz (unat a)) v else f b)"

lemma written_aligned:
  assumes "aligned sz a" and "k < lane_count sz"
  shows "written f sz a v (a + of_nat k) = byte_of k v"
  using aligned_lane [OF assms] assms(2) by (simp add: written_def)

lemma written_Byte: "written f Byte a v = f(a := ucast v)"
proof
  fix b
  have "unat b div 4 = unat a div 4 \<and> unat b mod 4 = unat a mod 4 \<longleftrightarrow> b = a"
    by (metis div_mult_mod_eq word_unat_eq_iff)
  then show "written f Byte a v b = (f(a := ucast v)) b"
    by (auto simp: written_def byte_of_def)
qed

lemma byte_at_write:
  assumes "mem_wf m"
  shows "byte_at (put_word (drop_bit 10 a) (page_offset_of a div 4)
           (merge_word sz (page_offset_of a) (word_at m (drop_bit 10 a) (page_offset_of a div 4)) v)
           ((touch callback_write_mem pr a m)\<lparr>watch_trigger := t\<rparr>)) b
         = written (byte_at m) sz a v b"
proof -
  let ?m = "(touch callback_write_mem pr a m)\<lparr>watch_trigger := t\<rparr>"
  have wf: "mem_wf ?m" "page_map ?m (drop_bit 10 a) \<noteq> None"
    using assms by (auto simp: mem_wf_touch)
  have k: "unat b mod 4 < 4" by simp
  show ?thesis
    unfolding byte_at_put_word [OF wf] same_word_iff written_def page_offset_mod4 byte_of_merge [OF k]
      lane_page_offset
    using same_word_iff [of b a] by (auto simp: byte_at_def)
qed

text \<open>
  Property C7. Reading is little-endian: outside the guest's memory nothing is read and nothing
  changes; an aligned read within it returns the bytes from its address on, the first one lowest,
  and changes no byte.
\<close>

theorem read_mem_bytes:
  assumes "mem_wf m" and "pr \<or> watchpoints_fit m"
  shows "(out_of_range a \<longrightarrow> read_mem_with_privileges a sz pr m = (Ok None, m)) \<and>
    (\<not> out_of_range a \<and> aligned sz a \<longrightarrow>
      (\<exists>v m'. read_mem_with_privileges a sz pr m = (Ok (Some v), m') \<and> byte_at m' = byte_at m \<and>
        (\<forall>k < 4. byte_of k v = (if k < lane_count sz then byte_at m (a + of_nat k) else 0))))"
proof (intro conjI impI)
  assume "\<not> out_of_range a \<and> aligned sz a"
  then have r: "\<not> out_of_range a" and al: "aligned sz a" by auto
  from read_mem_spec [OF assms r, of sz] show "\<exists>v m'. read_mem_with_privileges a sz pr m = (Ok (Some v), m') \<and>
      byte_at m' = byte_at m \<and>
      (\<forall>k < 4. byte_of k v = (if k < lane_count sz then byte_at m (a + of_nat k) else 0))"
    using byte_at_lane [OF al, of _ m] by (auto simp: byte_of_extract)
qed (simp add: read_mem_unfold)

text \<open>
  Property C8. Writing is little-endian: outside the guest's memory it is refused and nothing changes;
  within it exactly the bytes the access covers change, to those of the value.
\<close>

theorem write_mem_bytes:
  assumes "mem_wf m" and "pr \<or> watchpoints_fit m"
  shows "if out_of_range a then write_mem_with_privileges a sz v pr m = (Ok False, m)
    else \<exists>m'. write_mem_with_privileges a sz v pr m = (Ok True, m') \<and> mem_wf m' \<and>
           byte_at m' = written (byte_at m) sz a v"
proof (cases "out_of_range a")
  case False
  from write_mem_spec [OF assms False, of sz v] obtain t where
    w: "write_mem_with_privileges a sz v pr m = (Ok True,
      put_word (drop_bit 10 a) (page_offset_of a div 4)
        (merge_word sz (page_offset_of a) (word_at m (drop_bit 10 a) (page_offset_of a div 4)) v)
        ((touch callback_write_mem pr a m)\<lparr>watch_trigger := t\<rparr>))" (is "_ = (_, ?m')")
    by blast
  have "mem_wf ?m'"
    by (rule mem_wf_put_word) (use assms(1) touch_simps(4) in \<open>simp_all add: mem_wf_touch\<close>)
  with w False show ?thesis using byte_at_write [OF assms(1)] by (auto simp: fun_eq_iff)
qed (simp add: write_mem_unfold)

section \<open>Whatever the outcome\<close>

text \<open>Every access, also one that panics, keeps the invariant and the watchpoints.\<close>

lemma touch_trigger_wf:
  "mem_wf m \<Longrightarrow> f = callback_read_mem \<or> f = callback_write_mem \<Longrightarrow>
     mem_wf ((touch f pr a m)\<lparr>watch_trigger := t\<rparr>)"
  by (simp add: mem_wf_touch)

text \<open>A new trigger comes from a registered watchpoint; a pending one stays.\<close>

definition trigger_ok :: "Memory \<Rightarrow> (WatchKind \<times> u32) option \<Rightarrow> bool" where
  "trigger_ok m t \<longleftrightarrow>
     (case watch_trigger m of
        Some t0 \<Rightarrow> t = Some t0
      | None \<Rightarrow> (\<forall>k a. t = Some (k, a) \<longrightarrow> (\<exists>ws wl. (ws, wl, k) \<in> set (hw_watchpoints m))))"

lemma check_entries_kind:
  "check_entries es addr len w = Inr (Some (k, a)) \<Longrightarrow> \<exists>ws wl. (ws, wl, k) \<in> set es"
proof (induction es)
  case (Cons e es)
  obtain ws wl kind where e: "e = (ws, wl, kind)" by (cases e)
  from Cons.prems have "k = kind \<or> check_entries es addr len w = Inr (Some (k, a))"
    unfolding e by (auto split: if_splits option.splits)
  with Cons.IH show ?case unfolding e by fastforce
qed simp

lemma check_frame:
  "\<exists>r t. (if pr then ret () else check_watchpoints a l w) m = (r, m\<lparr>watch_trigger := t\<rparr>) \<and>
     trigger_ok m t"
  by (auto simp: check_watchpoints_def ret_def trigger_ok_def dest: check_entries_kind
      intro: exI [of _ "watch_trigger m"] split: sum.splits option.splits)

text \<open>
  What an access leaves alone: the invariant, the watchpoints, the session cycle count (the
  marks of a step are not charged yet), and the trigger but for a new one.
\<close>

definition same_frame :: "Memory \<Rightarrow> Memory \<Rightarrow> bool" where
  "same_frame m m' \<longleftrightarrow> (mem_wf m \<longrightarrow> mem_wf m') \<and> hw_watchpoints m' = hw_watchpoints m \<and>
     map_option get_session_cycle (session_cycle_callback m') =
       map_option get_session_cycle (session_cycle_callback m) \<and>
     trigger_ok m (watch_trigger m')"

lemma trigger_ok_refl [simp]: "trigger_ok m (watch_trigger m)"
  by (simp add: trigger_ok_def split: option.split)

lemma trigger_ok_same [simp]: "trigger_ok (m\<lparr>watch_trigger := t\<rparr>) t"
  by (simp add: trigger_ok_def split: option.split)

lemma same_frame_refl [simp, intro]: "same_frame m m"
  by (simp add: same_frame_def)

lemma same_frame_trans [trans]: "same_frame a b \<Longrightarrow> same_frame b c \<Longrightarrow> same_frame a c"
  by (auto simp: same_frame_def trigger_ok_def split: option.splits)

lemma same_frame_callback:
  "same_frame m m' \<Longrightarrow> session_cycle_callback m' = None \<longleftrightarrow> session_cycle_callback m = None"
  by (metis same_frame_def map_option_is_None)

lemma same_frame_wf: "same_frame m m' \<Longrightarrow> mem_wf m \<Longrightarrow> mem_wf m'"
  by (simp add: same_frame_def)

lemma session_cycle_callbacks [simp]:
  "get_session_cycle (callback_read_mem p c) = get_session_cycle c"
  "get_session_cycle (callback_write_mem p c) = get_session_cycle c"
  by (simp_all add: get_session_cycle_def callback_read_mem_def callback_write_mem_def)

lemma same_frame_touch:
  assumes "f = callback_read_mem \<or> f = callback_write_mem" and "trigger_ok m t"
  shows "same_frame m ((touch f pr a m)\<lparr>watch_trigger := t\<rparr>)"
proof -
  have "map_option get_session_cycle (session_cycle_callback (touch f pr a m)) =
      map_option get_session_cycle (session_cycle_callback m)"
    using assms(1) by (auto simp: touch_def run_callback_def split: option.split)
  with assms show ?thesis by (auto simp: same_frame_def mem_wf_touch)
qed

lemma trigger_ok_touch [simp]: "trigger_ok (touch f pr a m) t = trigger_ok m t"
  by (simp add: trigger_ok_def split: option.split)

lemma get_word_state: "\<exists>r. get_word p i m = (r, m)"
  by (simp add: get_word_def split: option.split)

lemma read_mem_frame: "same_frame m (snd (read_mem_with_privileges a sz pr m))"
proof (cases "out_of_range a")
  case False
  obtain r t where c: "(if pr then ret () else check_watchpoints a (access_len sz) False)
      (touch callback_read_mem pr a m) = (r, (touch callback_read_mem pr a m)\<lparr>watch_trigger := t\<rparr>)"
    "trigger_ok m t"
    using check_frame [of pr a "access_len sz" False "touch callback_read_mem pr a m"] by auto
  let ?m = "(touch callback_read_mem pr a m)\<lparr>watch_trigger := t\<rparr>"
  obtain r' where "get_word (drop_bit 10 a) (page_offset_of a div 4) ?m = (r', ?m)"
    using get_word_state by blast
  with False c have "snd (read_mem_with_privileges a sz pr m) = ?m"
    by (cases r; cases r') (simp_all add: read_mem_unfold bindM_def ret_def split del: if_split)
  with c(2) show ?thesis by (simp add: same_frame_touch)
qed (simp add: read_mem_unfold)

lemma write_mem_frame: "same_frame m (snd (write_mem_with_privileges a sz v pr m))"
proof (cases "out_of_range a")
  case False
  obtain r t where c: "(if pr then ret () else check_watchpoints a (access_len sz) True)
      (touch callback_write_mem pr a m) = (r, (touch callback_write_mem pr a m)\<lparr>watch_trigger := t\<rparr>)"
    "trigger_ok m t"
    using check_frame [of pr a "access_len sz" True "touch callback_write_mem pr a m"] by auto
  let ?m = "(touch callback_write_mem pr a m)\<lparr>watch_trigger := t\<rparr>"
  obtain page where page: "page_map (touch callback_write_mem pr a m) (drop_bit 10 a) = Some page"
    using touch_simps(4) by blast
  obtain r' where g: "get_word (drop_bit 10 a) (page_offset_of a div 4) ?m = (r', ?m)"
    using get_word_state by blast
  have w: "\<exists>r. set_word (drop_bit 10 a) (page_offset_of a div 4) w ?m = (r, ?m) \<or>
      set_word (drop_bit 10 a) (page_offset_of a div 4) w ?m =
        (Ok (), put_word (drop_bit 10 a) (page_offset_of a div 4) w ?m)" for w
    using page by (simp add: set_word_def put_word_def)
  have "\<exists>w. snd (write_mem_with_privileges a sz v pr m) \<in>
      {?m, put_word (drop_bit 10 a) (page_offset_of a div 4) w ?m}"
  proof (cases r)
    case (Ok u)
    show ?thesis
    proof (cases r')
      case (Ok x)
      let ?w = "merge_word sz (page_offset_of a) x v"
      have "snd (write_mem_with_privileges a sz v pr m) =
          snd (bindM (set_word (drop_bit 10 a) (page_offset_of a div 4) ?w) (\<lambda>_. ret True) ?m)"
        using \<open>r = Ok u\<close> Ok False c g by (simp add: write_mem_unfold bindM_def split del: if_split)
      also have "\<dots> = snd (set_word (drop_bit 10 a) (page_offset_of a div 4) ?w ?m)"
        by (simp add: bindM_def ret_def split: prod.split outcome.split)
      finally show ?thesis using w [of ?w] by auto
    qed (use \<open>r = Ok u\<close> False c g in \<open>simp_all add: write_mem_unfold bindM_def split del: if_split\<close>)
  qed (use False c in \<open>simp_all add: write_mem_unfold bindM_def split del: if_split\<close>)
  then obtain w' where "snd (write_mem_with_privileges a sz v pr m) \<in>
      {?m, put_word (drop_bit 10 a) (page_offset_of a div 4) w' ?m}" by blast
  moreover have 1: "same_frame m ?m" using c(2) by (simp add: same_frame_touch)
  moreover have "same_frame ?m (put_word (drop_bit 10 a) (page_offset_of a div 4) w' ?m)"
    using page by (auto simp: same_frame_def intro!: mem_wf_put_word)
  note 2 = same_frame_trans [OF 1 this]
  ultimately show ?thesis using 1 2 by auto
qed (simp add: write_mem_unfold)

section \<open>Byte stores\<close>

text \<open>A window of bytes, and a window overwritten.\<close>

definition load :: "(u32 \<Rightarrow> u8) \<Rightarrow> u32 \<Rightarrow> nat \<Rightarrow> u8 list" where
  "load f ptr n = map (\<lambda>k. f (ptr + of_nat k)) [0..<n]"

definition overlay :: "(u32 \<Rightarrow> u8) \<Rightarrow> u32 \<Rightarrow> u8 list \<Rightarrow> u32 \<Rightarrow> u8" where
  "overlay f ptr data a =
     (if unat (a - ptr) < length data then data ! unat (a - ptr) else f a)"

lemma length_load [simp]: "length (load f ptr n) = n"
  by (simp add: load_def)

lemma load_0 [simp]: "load f ptr 0 = []"
  by (simp add: load_def)

lemma load_Suc: "load f ptr (Suc n) = f ptr # load f (ptr + 1) n"
  by (simp add: load_def upt_rec [of 0] map_Suc_upt [symmetric] add.assoc comp_def del: upt_Suc)

lemma overlay_Nil [simp]: "overlay f ptr [] = f"
  by (simp add: overlay_def fun_eq_iff)

lemma overlay_Cons:
  assumes "length data < 4294967296"
  shows "overlay f ptr (b # data) = overlay (f(ptr := b)) (ptr + 1) data"
proof
  fix a
  show "overlay f ptr (b # data) a = overlay (f(ptr := b)) (ptr + 1) data a"
  proof (cases "a = ptr")
    case True
    have "unat (- 1 :: u32) = 4294967295" by (simp add: unsigned_minus_1_eq_mask mask_eq_exp_minus_1)
    with True assms show ?thesis by (simp add: overlay_def)
  next
    case False
    then have "a - ptr \<noteq> 0" by simp
    then have "unat (a - ptr) = Suc (unat (a - ptr - 1))"
      using unat_minus_one [of "a - ptr"] unat_gt_0 [of "a - ptr"] by simp
    with False show ?thesis by (simp add: overlay_def diff_diff_eq)
  qed
qed

lemma load_overlay:
  assumes "length data \<le> 4294967296"
  shows "load (overlay f ptr data) ptr (length data) = data"
proof (rule nth_equalityI)
  fix i assume "i < length (load (overlay f ptr data) ptr (length data))"
  with assms show "load (overlay f ptr data) ptr (length data) ! i = data ! i"
    by (simp add: load_def overlay_def)
qed simp

text \<open>
  The loops over guest memory: \<open>for i in 0..n\<close>, one byte at \<open>ptr + i\<close> (an addition that
  can overflow), leaving with the error \<open>e\<close> at the first address outside the memory.
\<close>

lemma ucast_ucast_u8 [simp]: "(ucast (ucast (b :: u8) :: u32) :: u8) = b"
  by (rule bit_word_eqI) (simp add: bit_simps)

primrec read_loop ::
    "(u32 \<Rightarrow> ('s, 'e, u32 option) M) \<Rightarrow> 'e \<Rightarrow> u32 \<Rightarrow> nat \<Rightarrow> nat \<Rightarrow> ('s, 'e, u8 list) M" where
  "read_loop rd e ptr i 0 = ret []"
| "read_loop rd e ptr i (Suc n) =
     bindM (add32 ptr (of_nat i)) (\<lambda>a.
     bindM (rd a) (\<lambda>r.
     bindM (ok_or e r) (\<lambda>v.
     bindM (read_loop rd e ptr (Suc i) n) (\<lambda>bs.
     ret (ucast v # bs)))))"

primrec write_loop ::
    "(u32 \<Rightarrow> u32 \<Rightarrow> ('s, 'e, bool) M) \<Rightarrow> 'e \<Rightarrow> u32 \<Rightarrow> nat \<Rightarrow> u8 list \<Rightarrow> ('s, 'e, unit) M" where
  "write_loop wr e ptr i [] = ret ()"
| "write_loop wr e ptr i (b # bs) =
     bindM (add32 ptr (of_nat i)) (\<lambda>a.
     bindM (wr a (ucast b)) (\<lambda>res.
     if res then write_loop wr e ptr (Suc i) bs else throw e))"

locale byte_store =
  fixes rd :: "u32 \<Rightarrow> ('m, 'e, u32 option) M"
    and wr :: "u32 \<Rightarrow> u32 \<Rightarrow> ('m, 'e, bool) M"
    and bytes :: "'m \<Rightarrow> u32 \<Rightarrow> u8"
    and inv :: "'m \<Rightarrow> bool"
    and mapped :: "u32 \<Rightarrow> bool"
  assumes rd_mapped: "inv m \<Longrightarrow> mapped a \<Longrightarrow>
      \<exists>m'. rd a m = (Ok (Some (ucast (bytes m a))), m') \<and> inv m' \<and> bytes m' = bytes m"
    and rd_unmapped: "\<not> mapped a \<Longrightarrow> rd a m = (Ok None, m)"
    and wr_mapped: "inv m \<Longrightarrow> mapped a \<Longrightarrow>
      \<exists>m'. wr a v m = (Ok True, m') \<and> inv m' \<and> bytes m' = (bytes m)(a := ucast v)"
    and wr_unmapped: "\<not> mapped a \<Longrightarrow> wr a v m = (Ok False, m)"
begin

lemma read_loop_ok:
  assumes "inv m" and "unat ptr + i + n \<le> 4294967296"
    and "\<forall>k. i \<le> k \<and> k < i + n \<longrightarrow> mapped (ptr + of_nat k)"
  shows "\<exists>m'. read_loop rd e ptr i n m = (Ok (load (bytes m) (ptr + of_nat i) n), m') \<and>
           inv m' \<and> bytes m' = bytes m"
  using assms
proof (induction n arbitrary: m i)
  case (Suc n)
  have add: "add32 ptr (of_nat i) m = (Ok (ptr + of_nat i) :: ('e, u32) outcome, m)"
    using Suc.prems(2) by (simp add: add32_def checked_add32_def ret_def)
  from Suc.prems(1,3) obtain m1 where
    m1: "rd (ptr + of_nat i) m = (Ok (Some (ucast (bytes m (ptr + of_nat i)))), m1)"
      "inv m1" "bytes m1 = bytes m" using rd_mapped by force
  from Suc.IH [of m1 "Suc i"] Suc.prems m1 obtain m2 where
    m2: "read_loop rd e ptr (Suc i) n m1 = (Ok (load (bytes m) (ptr + of_nat (Suc i)) n), m2)"
      "inv m2" "bytes m2 = bytes m" by auto
  have "ptr + of_nat (Suc i) = ptr + of_nat i + 1" by simp
  with m2(1) have "read_loop rd e ptr (Suc i) n m1 = (Ok (load (bytes m) (ptr + of_nat i + 1) n), m2)"
    by metis
  with m2(2,3) show ?case
    by (simp add: bindM_def add m1(1) ok_or_def ret_def load_Suc)
qed (simp add: ret_def)

lemma write_loop_ok:
  assumes "inv m" and "unat ptr + i + length data \<le> 4294967296"
    and "\<forall>k. i \<le> k \<and> k < i + length data \<longrightarrow> mapped (ptr + of_nat k)"
  shows "\<exists>m'. write_loop wr e ptr i data m = (Ok (), m') \<and>
           inv m' \<and> bytes m' = overlay (bytes m) (ptr + of_nat i) data"
  using assms
proof (induction data arbitrary: m i)
  case (Cons b bs)
  have add: "add32 ptr (of_nat i) m = (Ok (ptr + of_nat i) :: ('e, u32) outcome, m)"
    using Cons.prems(2) by (simp add: add32_def checked_add32_def ret_def)
  from Cons.prems(1,3) obtain m1 where
    m1: "wr (ptr + of_nat i) (ucast b) m = (Ok True, m1)"
      "inv m1" "bytes m1 = (bytes m)(ptr + of_nat i := b)"
    using wr_mapped [of m "ptr + of_nat i" "ucast b"] by auto
  have "unat ptr + Suc i + length bs \<le> 4294967296"
    "\<forall>k. Suc i \<le> k \<and> k < Suc i + length bs \<longrightarrow> mapped (ptr + of_nat k)"
    using Cons.prems(2,3) by auto
  from Cons.IH [OF m1(2) this] obtain m2 where
    m2: "write_loop wr e ptr (Suc i) bs m1 = (Ok (), m2)"
      "inv m2" "bytes m2 = overlay (bytes m1) (ptr + of_nat (Suc i)) bs" by blast
  have "ptr + of_nat (Suc i) = ptr + of_nat i + 1" by simp
  moreover have "length bs < 4294967296" using Cons.prems(2) by simp
  ultimately have "bytes m2 = overlay (bytes m) (ptr + of_nat i) (b # bs)"
    unfolding m2(3) m1(3) by (metis overlay_Cons)
  with m2(1,2) show ?case
    by (simp add: bindM_def add m1(1))
qed (simp add: ret_def)

text \<open>The first address outside the memory ends both loops with their error.\<close>

lemma read_loop_unmapped:
  assumes "inv m" and "unat ptr + i < 4294967296" and "\<not> mapped (ptr + of_nat i)"
  shows "read_loop rd e ptr i (Suc n) m = (Err e, m)"
  using assms rd_unmapped
  by (simp add: add32_def checked_add32_def ret_def bindM_def ok_or_def throw_def)

lemma write_loop_unmapped:
  assumes "inv m" and "unat ptr + i < 4294967296" and "\<not> mapped (ptr + of_nat i)"
  shows "write_loop wr e ptr i (b # bs) m = (Err e, m)"
  using assms wr_unmapped
  by (simp add: add32_def checked_add32_def ret_def bindM_def throw_def)

text \<open>Reading back what was written.\<close>

lemma write_then_read:
  assumes "inv m" and "unat ptr + length data \<le> 4294967296"
    and "\<forall>k < length data. mapped (ptr + of_nat k)"
  shows "\<exists>m1 m2. write_loop wr e ptr 0 data m = (Ok (), m1) \<and>
           read_loop rd e ptr 0 (length data) m1 = (Ok data, m2) \<and>
           bytes m2 = overlay (bytes m) ptr data"
  using write_loop_ok [of m ptr 0 data e] read_loop_ok [of _ ptr 0 "length data" e] assms
  by (force simp: load_overlay)

end

definition in_range :: "u32 \<Rightarrow> bool" where
  "in_range a \<longleftrightarrow> \<not> out_of_range a"

definition guest_inv :: "Memory \<Rightarrow> bool" where
  "guest_inv m \<longleftrightarrow> mem_wf m \<and> watchpoints_fit m"

lemma watchpoints_fit_frame: "same_frame m m' \<Longrightarrow> watchpoints_fit m' = watchpoints_fit m"
  by (simp add: same_frame_def watchpoints_fit_def)

lemma word_eq_bytesI: "(\<And>k. k < 4 \<Longrightarrow> byte_of k v = byte_of k w) \<Longrightarrow> v = w"
  using from_le4_bytes [of v] from_le4_bytes [of w] by simp

lemma byte_of_ucast: "byte_of k (ucast (b :: u8)) = (if k = 0 then b else 0)"
proof (rule bit_word_eqI)
  fix n assume "n < LENGTH(8)"
  then show "bit (byte_of k (ucast b)) n = bit (if k = 0 then b else 0) n"
    by (auto simp: byte_of_def bit_simps dest: bit8)
qed

lemma read_byte:
  assumes "mem_wf m" and "pr \<or> watchpoints_fit m" and "in_range a"
  shows "\<exists>m'. read_mem_with_privileges a Byte pr m = (Ok (Some (ucast (byte_at m a))), m') \<and>
           byte_at m' = byte_at m \<and> same_frame m m'"
proof -
  obtain t where r: "read_mem_with_privileges a Byte pr m =
     (Ok (Some (extract_word Byte (page_offset_of a) (word_at m (drop_bit 10 a) (page_offset_of a div 4)))),
      (touch callback_read_mem pr a m)\<lparr>watch_trigger := t\<rparr>)"
    using read_mem_spec [OF assms(1,2), of a Byte] assms(3) by (auto simp: in_range_def)
  have "extract_word Byte (page_offset_of a) (word_at m (drop_bit 10 a) (page_offset_of a div 4)) =
      ucast (byte_at m a)"
    by (rule word_eq_bytesI) (simp only: byte_of_extract byte_of_ucast, simp add: byte_at_def)
  with r show ?thesis
    using read_mem_frame [of m a Byte pr] by simp
qed

lemma write_byte:
  assumes "mem_wf m" and "pr \<or> watchpoints_fit m" and "in_range a"
  shows "\<exists>m'. write_mem_with_privileges a Byte v pr m = (Ok True, m') \<and>
           byte_at m' = (byte_at m)(a := ucast v) \<and> same_frame m m'"
proof -
  obtain t where w: "write_mem_with_privileges a Byte v pr m = (Ok True,
      put_word (drop_bit 10 a) (page_offset_of a div 4)
        (merge_word Byte (page_offset_of a) (word_at m (drop_bit 10 a) (page_offset_of a div 4)) v)
        ((touch callback_write_mem pr a m)\<lparr>watch_trigger := t\<rparr>))"
    using write_mem_spec [OF assms(1,2), of a Byte v] assms(3) by (auto simp: in_range_def)
  then show ?thesis
    using write_mem_frame [of m a Byte v pr] byte_at_write [OF assms(1), where a = a and sz = Byte and v = v and pr = pr and t = t]
    by (auto simp: fun_eq_iff written_Byte)
qed

text \<open>Aligned word accesses are accesses to four bytes.\<close>

lemma written_Word:
  assumes "aligned Word a"
  shows "written f Word a v = overlay f a (to_le_bytes v)"
proof
  fix b
  show "written f Word a v b = overlay f a (to_le_bytes v) b"
  proof (cases "unat (b - a) < 4")
    case True
    let ?k = "unat (b - a)"
    have b: "b = a + of_nat ?k" by simp
    have "unat b div 4 = unat a div 4" "unat b mod 4 = ?k"
      using aligned_lane [OF assms, of ?k] True b by simp_all
    with True show ?thesis by (simp add: written_def overlay_def nth_to_le_bytes)
  next
    case False
    have "unat b div 4 \<noteq> unat a div 4"
    proof
      assume eq: "unat b div 4 = unat a div 4"
      have "unat a mod 4 = 0" using assms by (simp add: aligned_def)
      with eq have "unat a \<le> unat b" "unat b - unat a < 4" 
        using div_mult_mod_eq [of "unat b" 4] div_mult_mod_eq [of "unat a" 4] mod_less_divisor [of 4 "unat b"]
        by linarith+
      then have "unat (b - a) < 4" by (simp add: unat_sub word_le_nat_alt)
      with False show False by simp
    qed
    with False show ?thesis by (simp add: written_def overlay_def)
  qed
qed

lemma write_word:
  assumes "mem_wf m" and "pr \<or> watchpoints_fit m" and "in_range a" and "aligned Word a"
  shows "\<exists>m'. write_mem_with_privileges a Word v pr m = (Ok True, m') \<and>
           byte_at m' = overlay (byte_at m) a (to_le_bytes v) \<and> same_frame m m'"
proof -
  obtain t where w: "write_mem_with_privileges a Word v pr m = (Ok True,
      put_word (drop_bit 10 a) (page_offset_of a div 4)
        (merge_word Word (page_offset_of a) (word_at m (drop_bit 10 a) (page_offset_of a div 4)) v)
        ((touch callback_write_mem pr a m)\<lparr>watch_trigger := t\<rparr>))"
    using write_mem_spec [OF assms(1,2), of a Word v] assms(3) by (auto simp: in_range_def)
  then show ?thesis
    using write_mem_frame [of m a Word v pr] written_Word [OF assms(4)]
      byte_at_write [OF assms(1), where a = a and sz = Word and v = v and pr = pr and t = t]
    by (auto simp: fun_eq_iff)
qed

lemma read_word:
  assumes "mem_wf m" and "pr \<or> watchpoints_fit m" and "in_range a" and "aligned Word a"
  shows "\<exists>m'. read_mem_with_privileges a Word pr m = (Ok (Some (le_word (load (byte_at m) a 4))), m') \<and>
           byte_at m' = byte_at m \<and> same_frame m m'"
proof -
  let ?w = "word_at m (drop_bit 10 a) (page_offset_of a div 4)"
  obtain t where r: "read_mem_with_privileges a Word pr m =
     (Ok (Some ?w), (touch callback_read_mem pr a m)\<lparr>watch_trigger := t\<rparr>)"
    using read_mem_spec [OF assms(1,2), of a Word] assms(3) by (auto simp: in_range_def)
  have "load (byte_at m) a 4 = to_le_bytes ?w"
    by (rule nth_equalityI) (simp_all add: load_def nth_to_le_bytes byte_at_lane [OF assms(4)])
  with r show ?thesis
    using read_mem_frame [of m a Word pr] by simp
qed

lemma guest_inv_frame: "same_frame m m' \<Longrightarrow> guest_inv m \<Longrightarrow> guest_inv m'"
  using watchpoints_fit_frame same_frame_wf by (auto simp: guest_inv_def)

text \<open>The debugger's accesses and the guest's accesses are both byte stores.\<close>

interpretation debug_store: byte_store
  "\<lambda>a. read_mem_with_privileges a Byte True" "\<lambda>a v. write_mem_with_privileges a Byte v True"
  byte_at mem_wf in_range
proof
  show "\<exists>m'. read_mem_with_privileges a Byte True m = (Ok (Some (ucast (byte_at m a))), m') \<and>
      mem_wf m' \<and> byte_at m' = byte_at m" if "mem_wf m" "in_range a" for m a
    using read_byte [of m True a] that by (auto simp: same_frame_def)
  show "\<exists>m'. write_mem_with_privileges a Byte v True m = (Ok True, m') \<and>
      mem_wf m' \<and> byte_at m' = (byte_at m)(a := ucast v)" if "mem_wf m" "in_range a" for m a v
    using write_byte [of m True a v] that by (auto simp: same_frame_def)
qed (simp_all add: read_mem_unfold write_mem_unfold in_range_def)

interpretation guest_store: byte_store
  "\<lambda>a. read_mem a Byte" "\<lambda>a v. write_mem a Byte v" byte_at guest_inv in_range
proof
  show "\<exists>m'. read_mem a Byte m = (Ok (Some (ucast (byte_at m a))), m') \<and>
      guest_inv m' \<and> byte_at m' = byte_at m" if "guest_inv m" "in_range a" for m a
    using read_byte [of m False a] that watchpoints_fit_frame
    by (auto simp: same_frame_def guest_inv_def read_mem_def)
  show "\<exists>m'. write_mem a Byte v m = (Ok True, m') \<and>
      guest_inv m' \<and> byte_at m' = (byte_at m)(a := ucast v)" if "guest_inv m" "in_range a" for m a v
    using write_byte [of m False a v] that watchpoints_fit_frame
    by (auto simp: same_frame_def guest_inv_def write_mem_def)
qed (simp_all add: read_mem_unfold write_mem_unfold in_range_def read_mem_def write_mem_def)

section \<open>Properties\<close>

lemma callback_touch_privileged [simp]:
  "session_cycle_callback (touch f True a m) = session_cycle_callback m"
  by (simp add: touch_def run_callback_def split: option.split)

lemma callback_touch_guest:
  "session_cycle_callback (touch f False a m) = map_option (f (drop_bit 10 a)) (session_cycle_callback m)"
  by (simp add: touch_def run_callback_def split: option.split)

lemma access_triggers:
  assumes "guest_inv m" and "in_range a"
  shows "watch_trigger (snd (read_mem a sz m)) = trigger_after m a (access_len sz) False"
    and "watch_trigger (snd (write_mem a sz v m)) = trigger_after m a (access_len sz) True"
  using assms read_mem_spec [of m False a sz] write_mem_spec [of m False a sz v]
  by (simp_all add: guest_inv_def in_range_def read_mem_def write_mem_def access_trigger_def)

text \<open>
  Property C27. A guest access leaves as pending trigger the first registered watchpoint that
  fires for its kind, range and address, unless one was already pending; and it marks its
  page, and no other, as read or written in the cycle counter.
\<close>

theorem guest_access_effects:
  assumes "guest_inv m" and "in_range a"
  shows "watch_trigger (snd (read_mem a sz m)) = trigger_after m a (access_len sz) False \<and>
    watch_trigger (snd (write_mem a sz v m)) = trigger_after m a (access_len sz) True \<and>
    session_cycle_callback (snd (read_mem a sz m)) =
      map_option (callback_read_mem (drop_bit 10 a)) (session_cycle_callback m) \<and>
    session_cycle_callback (snd (write_mem a sz v m)) =
      map_option (callback_write_mem (drop_bit 10 a)) (session_cycle_callback m)"
  using assms access_triggers [OF assms] read_mem_spec [of m False a sz] write_mem_spec [of m False a sz v]
  by (simp add: guest_inv_def in_range_def read_mem_def write_mem_def access_trigger_def callback_touch_guest)

text \<open>
  The access meets the watched bytes, or it ends exactly where they begin, or the watched range
  is empty and inside the access.
\<close>

definition meets_or_touches :: "nat \<Rightarrow> nat \<Rightarrow> nat \<Rightarrow> nat \<Rightarrow> bool" where
  "meets_or_touches a len ws wl \<longleftrightarrow>
     ranges_meet a len ws wl \<or> a + len = ws \<or> wl = 0 \<and> a < ws \<and> ws < a + len"

lemma fires_iff:
  assumes "0 < unat len"
  shows "fires addr len is_write (ws, wl, kind) \<longleftrightarrow>
     watches kind is_write \<and> meets_or_touches (unat addr) (unat len) (unat ws) (unat wl)"
  using assms by (auto simp: fires_def ranges_meet_iff meets_or_touches_def)

lemma triggered_iff:
  assumes "watch_trigger m = None"
  shows "trigger_after m a (access_len sz) w \<noteq> None \<longleftrightarrow>
     (\<exists>ws wl kind. (ws, wl, kind) \<in> set (hw_watchpoints m) \<and> watches kind w \<and>
        meets_or_touches (unat a) (lane_count sz) (unat ws) (unat wl))"
proof -
  have "0 < unat (access_len sz)" "unat (access_len sz) = lane_count sz"
    by (cases sz; simp add: access_len_def)+
  with fires_iff show ?thesis
    using assms by (force simp: trigger_after_def find_None_iff)
qed

text \<open>
  The bytes an access touches: those of its lane, of the word its address is in. Only an aligned
  access touches the bytes from its address on.
\<close>

definition accessed :: "MemAccessSize \<Rightarrow> u32 \<Rightarrow> u32 set" where
  "accessed sz a =
     {b. unat b div 4 = unat a div 4 \<and> lane sz (unat a) \<le> unat b mod 4 \<and>
         unat b mod 4 < lane sz (unat a) + lane_count sz}"

lemma written_accessed: "b \<notin> accessed sz a \<Longrightarrow> written f sz a v b = f b"
  by (auto simp: accessed_def written_def)

lemma accessed_aligned:
  assumes "aligned sz a" and "b \<in> accessed sz a"
  shows "unat a \<le> unat b \<and> unat b < unat a + lane_count sz"
proof -
  have "0 < lane_count sz" by (cases sz) simp_all
  from lane_aligned(2) [OF assms(1) this] assms(2)
  have b: "unat b div 4 = unat a div 4" "unat a mod 4 \<le> unat b mod 4" "unat b mod 4 < unat a mod 4 + lane_count sz"
    by (simp_all add: accessed_def)
  have "unat b = 4 * (unat a div 4) + unat b mod 4" using mult_div_mod_eq [of 4 "unat b"] b(1) by simp
  moreover have "unat a = 4 * (unat a div 4) + unat a mod 4" by simp
  ultimately show ?thesis using b(2,3) by linarith
qed

lemma watched_byte_meets:
  assumes "aligned sz a" and "b \<in> accessed sz a" and "unat ws \<le> unat b" and "unat b < unat ws + unat wl"
  shows "meets_or_touches (unat a) (lane_count sz) (unat ws) (unat wl)"
  using accessed_aligned [OF assms(1,2)] assms(3,4) unfolding meets_or_touches_def ranges_meet_def by blast

text \<open>
  Property C28 (with a flaw). With no trigger pending, a guest's read or write of \<open>n\<close> bytes at the
  address \<open>a\<close> sets one if and only if some watchpoint for its kind shares an address with
  \<open>[a, a + n)\<close>, begins right at \<open>a + n\<close> (the flaw: no watched byte is touched then), or is an empty
  range that begins inside. In particular an aligned access that touches a watched byte always sets
  one. An access that is not aligned touches bytes below its address, which are not looked at.
\<close>

theorem fires_iff_meets_or_touches:
  assumes "guest_inv m" and "in_range a" and "watch_trigger m = None"
  shows "(watch_trigger (snd (read_mem a sz m)) \<noteq> None \<longleftrightarrow>
       (\<exists>ws wl kind. (ws, wl, kind) \<in> set (hw_watchpoints m) \<and> watches kind False \<and>
          meets_or_touches (unat a) (lane_count sz) (unat ws) (unat wl))) \<and>
    (watch_trigger (snd (write_mem a sz v m)) \<noteq> None \<longleftrightarrow>
       (\<exists>ws wl kind. (ws, wl, kind) \<in> set (hw_watchpoints m) \<and> watches kind True \<and>
          meets_or_touches (unat a) (lane_count sz) (unat ws) (unat wl))) \<and>
    (\<forall>b ws wl kind. aligned sz a \<and> b \<in> accessed sz a \<and> (ws, wl, kind) \<in> set (hw_watchpoints m) \<and>
        unat ws \<le> unat b \<and> unat b < unat ws + unat wl \<longrightarrow>
       (watches kind False \<longrightarrow> watch_trigger (snd (read_mem a sz m)) \<noteq> None) \<and>
       (watches kind True \<longrightarrow> watch_trigger (snd (write_mem a sz v m)) \<noteq> None))"
  unfolding access_triggers [OF assms(1,2)] triggered_iff [OF assms(3)]
  using watched_byte_meets by blast

text \<open>
  Remark (a flaw). A read that is not aligned delivers a watched byte below its address without
  setting the trigger.
\<close>

theorem misaligned_read_misses_watchpoint:
  assumes "mem_wf m" and "watch_trigger m = None" and "hw_watchpoints m = [(w, 1, WatchReadWrite)]"
    and "unat w mod 4 = 1" and "in_range w" and "in_range (w + 2)"
  shows "\<exists>v m'. read_mem (w + 2) Word m = (Ok (Some v), m') \<and> byte_of 1 v = byte_at m w \<and>
     w \<in> accessed Word (w + 2) \<and> watch_trigger m' = None"
proof -
  have lt: "unat w + 2 < 4294967296" using assms(5) by (simp add: in_range_def out_of_range_def cfg_simps)
  then have u: "unat (w + 2) = unat w + 2" by (simp add: unat_add32)
  have d: "unat (w + 2) div 4 = unat w div 4" using aligned_nat(1) [of "unat w" 2] assms(4) u by simp
  have fit: "watchpoints_fit m" using assms(3) lt by (simp add: watchpoints_fit_def)
  have "access_trigger False m (w + 2) Word False = None"
    using assms(2,3) u by (simp add: access_trigger_def trigger_after_def fires_def access_len_def)
  moreover have "byte_of 1 (word_at m (drop_bit 10 (w + 2)) (page_offset_of (w + 2) div 4)) = byte_at m w"
    using same_word_iff [of "w + 2" w] d assms(4) by (simp add: byte_at_def)
  moreover have "w \<in> accessed Word (w + 2)" using d by (simp add: accessed_def)
  moreover have "\<not> out_of_range (w + 2)" using assms(6) by (simp add: in_range_def)
  ultimately show ?thesis
    using read_mem_spec [OF assms(1) disjI2 [OF fit], of "w + 2" Word] by (simp add: read_mem_def)
qed

text \<open>
  Remark (a flaw). A write of the word below a watched word fires the watchpoint,
  although it touches no watched byte.
\<close>

theorem watchpoint_fires_on_adjacent_write:
  assumes "mem_wf m" and "watch_trigger m = None" and "hw_watchpoints m = [(w, 4, WatchWrite)]"
    and "0x404 \<le> unat w" and "unat w \<le> 0x0C000000"
  shows "\<exists>m'. write_mem (w - 4) Word v m = (Ok True, m') \<and>
           watch_trigger m' = Some (WatchWrite, w - 4) \<and>
           \<not> ranges_meet (unat (w - 4)) 4 (unat w) 4"
proof -
  have u: "unat (w - 4) = unat w - 4"
    using assms(4) by (simp add: unat_sub word_le_nat_alt)
  have rng: "\<not> out_of_range (w - 4)" and fit: "watchpoints_fit m"
    using assms(3,4,5) u by (auto simp: out_of_range_def cfg_simps watchpoints_fit_def)
  have "access_trigger False m (w - 4) Word True = Some (WatchWrite, w - 4)"
    using assms(2,3,4) u by (simp add: access_trigger_def trigger_after_def fires_def access_len_def)
  then show ?thesis
    using write_mem_spec [OF assms(1) disjI2 [OF fit] rng, of Word v] u assms(4)
    by (simp add: write_mem_def ranges_meet_def)
qed

text \<open>
  Remark. The debugger's privileged accesses are invisible to the program: no cycle is
  charged, no page is marked, no watchpoint fires.
\<close>

theorem privileged_access_invisible:
  assumes "mem_wf m"
  shows "session_cycle_callback (snd (read_mem_with_privileges a sz True m)) = session_cycle_callback m \<and>
    session_cycle_callback (snd (write_mem_with_privileges a sz v True m)) = session_cycle_callback m \<and>
    watch_trigger (snd (read_mem_with_privileges a sz True m)) = watch_trigger m \<and>
    watch_trigger (snd (write_mem_with_privileges a sz v True m)) = watch_trigger m"
proof (cases "out_of_range a")
  case False
  then show ?thesis
    using assms read_mem_spec [of m True a sz] write_mem_spec [of m True a sz v]
    by (simp add: access_trigger_def)
qed (simp add: read_mem_unfold write_mem_unfold)

text \<open>
  Remark. Every access, whether it succeeds, is refused or panics, keeps the page and
  counter invariants, the watchpoints and a trigger that is already pending.
\<close>

theorem access_keeps_invariant:
  "same_frame m (snd (read_mem_with_privileges a sz pr m)) \<and>
   same_frame m (snd (write_mem_with_privileges a sz v pr m))"
  using read_mem_frame write_mem_frame by blast

text \<open>
  Property C21. A block written byte by byte through the guest's accesses and read back is the
  block, and no other byte changes.
\<close>

theorem guest_block_roundtrip:
  assumes "guest_inv m" and "unat ptr + length data \<le> 4294967296"
    and "\<forall>k < length data. in_range (ptr + of_nat k)"
  shows "\<exists>m1 m2. write_loop (\<lambda>a v. write_mem a Byte v) e ptr 0 data m = (Ok (), m1) \<and>
           read_loop (\<lambda>a. read_mem a Byte) e ptr 0 (length data) m1 = (Ok data, m2) \<and>
           byte_at m2 = overlay (byte_at m) ptr data"
  using assms by (rule guest_store.write_then_read)

end
