(* ===== verification/Simulator.thy ===== *)
theory Simulator
  imports Guest_Memory
begin

text \<open>
  The simulator state of \<open>src/vm/simulator.rs\<close>, its channels, and the library code it is
  built on: what the model takes as parameters, and what that code documents.
\<close>

section \<open>State\<close>

text \<open>\<open>std::io::Cursor<Vec<u8>>\<close>.\<close>

record Cursor =
  get_ref :: "u8 list"
  position :: nat

definition default_cursor :: Cursor where
  "default_cursor = \<lparr>get_ref = [], position = 0\<rparr>"

text \<open>
  Strings are their UTF-8 bytes. \<open>session_cycle_count\<close> is the shared cell that \<open>mem\<close>
  holds in \<open>session_cycle_callback\<close>: one cell, kept once. \<open>random_calls\<close> counts the calls
  to the random source, whose answers differ from call to call.
\<close>

record Simulator =
  mem :: Memory
  hart_state :: HartState
  env :: "u8 list \<rightharpoonup> u8 list"
  stdin :: Cursor
  stdout :: Cursor
  stderr :: Cursor
  journal :: Cursor
  args :: "u8 list list"
  random_calls :: nat

definition new_simulator :: "Memory \<Rightarrow> u32 \<Rightarrow> (u8 list \<rightharpoonup> u8 list) \<Rightarrow> Simulator" where
  "new_simulator m entry env0 =
     \<lparr>mem = with_session_cycle_callback default_scc m,
      hart_state = new_hart\<lparr>pc := entry\<rparr>,
      env = env0,
      stdin = default_cursor, stdout = default_cursor, stderr = default_cursor,
      journal = default_cursor, args = [], random_calls = 0\<rparr>"

section \<open>Channels\<close>

definition sim_write :: "u32 \<Rightarrow> u8 list \<Rightarrow> (Simulator, vm_error, unit) M" where
  "sim_write read_fd data =
     (if read_fd = STDIN
      then modM (\<lambda>s. s\<lparr>stdin := (stdin s)\<lparr>get_ref := get_ref (stdin s) @ data\<rparr>\<rparr>)
      else throw UnsupportedInputChannel)"

text \<open>\<open>get_write_fd\<close> returns a mutable borrow of one of the three output channels.\<close>

datatype channel = ChStdout | ChStderr | ChJournal

text \<open>The channels are finitely many, so that statements about all of them compute.\<close>

instantiation channel :: enum
begin

definition enum_channel :: "channel list" where
  "enum_channel = [ChStdout, ChStderr, ChJournal]"

definition enum_all_channel :: "(channel \<Rightarrow> bool) \<Rightarrow> bool" where
  "enum_all_channel P \<longleftrightarrow> P ChStdout \<and> P ChStderr \<and> P ChJournal"

definition enum_ex_channel :: "(channel \<Rightarrow> bool) \<Rightarrow> bool" where
  "enum_ex_channel P \<longleftrightarrow> P ChStdout \<or> P ChStderr \<or> P ChJournal"

instance
proof
  show univ: "(UNIV :: channel set) = set enum_class.enum"
    using channel.exhaust by (auto simp: enum_channel_def)
  show "distinct (enum_class.enum :: channel list)" by (simp add: enum_channel_def)
  show "enum_class.enum_all P = Ball UNIV P" for P :: "channel \<Rightarrow> bool"
    unfolding univ by (simp add: enum_all_channel_def enum_channel_def)
  show "enum_class.enum_ex P = Bex UNIV P" for P :: "channel \<Rightarrow> bool"
    unfolding univ by (simp add: enum_ex_channel_def enum_channel_def)
qed

end

lemma all_channels: "(\<forall>ch. P ch) \<longleftrightarrow> P ChStdout \<and> P ChStderr \<and> P ChJournal"
  by (metis channel.exhaust)

fun get_channel :: "channel \<Rightarrow> Simulator \<Rightarrow> Cursor" where
  "get_channel ChStdout s = stdout s"
| "get_channel ChStderr s = stderr s"
| "get_channel ChJournal s = journal s"

fun set_channel :: "channel \<Rightarrow> Cursor \<Rightarrow> Simulator \<Rightarrow> Simulator" where
  "set_channel ChStdout c s = s\<lparr>stdout := c\<rparr>"
| "set_channel ChStderr c s = s\<lparr>stderr := c\<rparr>"
| "set_channel ChJournal c s = s\<lparr>journal := c\<rparr>"

definition get_write_fd :: "u32 \<Rightarrow> (Simulator, vm_error, channel) M" where
  "get_write_fd write_fd =
     (if write_fd = STDOUT then ret ChStdout
      else if write_fd = STDERR then ret ChStderr
      else if write_fd = JOURNAL then ret ChJournal
      else throw UnsupportedOutputChannel)"

text \<open>One \<open>Cursor::read\<close> into a buffer of \<open>n\<close> bytes: what is copied, and the cursor after.\<close>

definition cursor_read :: "nat \<Rightarrow> Cursor \<Rightarrow> u8 list \<times> Cursor" where
  "cursor_read n c =
     (let bs = take n (drop (position c) (get_ref c))
      in (bs, c\<lparr>position := position c + length bs\<rparr>))"

text \<open>\<open>read\<close> fills the first \<open>len\<close> bytes of \<open>dst\<close>; the result is \<open>dst\<close> afterwards.\<close>

definition sim_read :: "u32 \<Rightarrow> nat \<Rightarrow> u8 list \<Rightarrow> (Simulator, vm_error, u8 list) M" where
  "sim_read write_fd len dst =
     bindM (get_write_fd write_fd) (\<lambda>ch.
     bindM (getM (get_channel ch)) (\<lambda>buf.
     if length (get_ref buf) < position buf then panicM ArithOverflow
     else if length (get_ref buf) - position buf < len then throw NotEnoughOutput
     else if length dst < len then panicM IndexOutOfBounds
     else (case cursor_read len buf of
             (bs, buf') \<Rightarrow> bindM (modM (set_channel ch buf')) (\<lambda>_. ret (bs @ drop len dst)))))"

definition sim_read_to_end :: "u32 \<Rightarrow> u8 list \<Rightarrow> (Simulator, vm_error, u8 list) M" where
  "sim_read_to_end write_fd dst =
     bindM (get_write_fd write_fd) (\<lambda>ch.
     bindM (getM (get_channel ch)) (\<lambda>buf.
     case cursor_read (length (get_ref buf)) buf of
       (bs, buf') \<Rightarrow> bindM (modM (set_channel ch buf')) (\<lambda>_. ret (dst @ bs))))"

definition sim_args :: "u8 list list \<Rightarrow> Simulator \<Rightarrow> Simulator" where
  "sim_args extra s = s\<lparr>args := args s @ extra\<rparr>"

section \<open>Access to the parts\<close>

definition lift_mem :: "(Memory, vm_error, 'a) M \<Rightarrow> (Simulator, vm_error, 'a) M" where
  "lift_mem f s = (case f (mem s) of (r, m') \<Rightarrow> (r, s\<lparr>mem := m'\<rparr>))"

text \<open>
  The simulator's handle on the cycle counter. \<open>new\<close> registers the cell in the memory and
  nothing removes it, so the \<open>None\<close> case does not occur (\<open>sim_wf\<close> below).
\<close>

definition lift_cycle :: "(SessionCycleCount, vm_error, 'a) M \<Rightarrow> (Simulator, vm_error, 'a) M" where
  "lift_cycle f s =
     (case session_cycle_callback (mem s) of
        None \<Rightarrow> (Panic UnwrapFailed, s)
      | Some c \<Rightarrow> (case f c of
          (r, c') \<Rightarrow> (r, s\<lparr>mem := (mem s)\<lparr>session_cycle_callback := Some c'\<rparr>\<rparr>)))"

definition reg :: "nat \<Rightarrow> Simulator \<Rightarrow> u32" where
  "reg i s = registers (hart_state s) ! i"

definition set_reg :: "nat \<Rightarrow> u32 \<Rightarrow> Simulator \<Rightarrow> Simulator" where
  "set_reg i v s =
     s\<lparr>hart_state := (hart_state s)\<lparr>registers := (registers (hart_state s))[i := v]\<rparr>\<rparr>"

definition set_pc :: "u32 \<Rightarrow> Simulator \<Rightarrow> Simulator" where
  "set_pc v s = s\<lparr>hart_state := (hart_state s)\<lparr>pc := v\<rparr>\<rparr>"

section \<open>Library code\<close>

text \<open>The operations of \<open>crypto_bigint\<close> that the \<open>BIGINT\<close> ecall uses.\<close>

record bigint_lib =
  from_le_bytes256 :: "u8 list \<Rightarrow> 256 word"
  to_le_bytes256 :: "256 word \<Rightarrow> u8 list"
  checked_mul256 :: "256 word \<Rightarrow> 256 word \<Rightarrow> 256 word option"
  mul_wide256 :: "256 word \<Rightarrow> 256 word \<Rightarrow> 256 word \<times> 256 word"
  concat512 :: "256 word \<Rightarrow> 256 word \<Rightarrow> 512 word"
  rem512 :: "512 word \<Rightarrow> 512 word \<Rightarrow> 512 word"
  resize_up :: "256 word \<Rightarrow> 512 word"
  resize_down :: "512 word \<Rightarrow> 256 word"

text \<open>
  The libraries the virtual machine calls: the iteration order of a \<open>HashSet\<close>, the
  instruction executor of \<open>rrs_lib\<close> (an error is the name of its exception), the SHA-256
  compression function, the random source (whether call \<open>k\<close> succeeds, and its byte \<open>i\<close>),
  and the big integers.
\<close>

record externs =
  hashset_iter :: "u32 set \<Rightarrow> u32 list"
  exec_step :: "(HartState \<times> Memory, string, unit) M"
  compress256 :: "u32 list \<Rightarrow> u8 list \<Rightarrow> u32 list"
  random_ok :: "nat \<Rightarrow> bool"
  random_byte :: "nat \<Rightarrow> nat \<Rightarrow> u8"
  bigint :: bigint_lib

text \<open>Memory states reached by a sequence of the guest's own reads and writes.\<close>

inductive mem_reach :: "Memory \<Rightarrow> Memory \<Rightarrow> bool" where
  reach_refl: "mem_reach m m"
| reach_read: "mem_reach m m' \<Longrightarrow> mem_reach m (snd (read_mem a sz m'))"
| reach_write: "mem_reach m m' \<Longrightarrow> mem_reach m (snd (write_mem a sz v m'))"

text \<open>
  What \<open>rrs_lib\<close> documents of its executor: it accesses the memory only through the
  \<open>Memory\<close> trait, and its register file has 32 registers. What \<open>std\<close> documents of a
  \<open>HashSet\<close>: iteration visits each element once.
\<close>

definition exec_documented :: "(HartState \<times> Memory, string, unit) M \<Rightarrow> bool" where
  "exec_documented ex \<longleftrightarrow>
     (\<forall>h m r h' m'. ex (h, m) = (r, (h', m')) \<longrightarrow>
        mem_reach m m' \<and> length (registers h') = length (registers h))"

definition externs_documented :: "externs \<Rightarrow> bool" where
  "externs_documented ext \<longleftrightarrow>
     enumerates (hashset_iter ext) \<and> exec_documented (exec_step ext)"

section \<open>Invariant\<close>

definition cursor_wf :: "Cursor \<Rightarrow> bool" where
  "cursor_wf c \<longleftrightarrow> position c \<le> length (get_ref c)"

definition sim_wf :: "Simulator \<Rightarrow> bool" where
  "sim_wf s \<longleftrightarrow> mem_wf (mem s) \<and> session_cycle_callback (mem s) \<noteq> None \<and>
     length (registers (hart_state s)) = 32 \<and>
     cursor_wf (stdin s) \<and> cursor_wf (stdout s) \<and> cursor_wf (stderr s) \<and> cursor_wf (journal s)"

lemma mem_reach_frame: "mem_reach m m' \<Longrightarrow> same_frame m m'"
  by (induction rule: mem_reach.induct)
    (auto simp: read_mem_def write_mem_def intro: same_frame_trans read_mem_frame write_mem_frame)

lemma sim_wf_new: "mem_wf m \<Longrightarrow> sim_wf (new_simulator m entry e)"
  by (simp add: sim_wf_def new_simulator_def with_session_cycle_callback_def mem_wf_def
      cursor_wf_def default_cursor_def new_hart_def scc_wf_default)

lemma cursor_wf_read: "cursor_wf c \<Longrightarrow> cursor_wf (snd (cursor_read n c))"
  by (auto simp: cursor_wf_def cursor_read_def Let_def)

lemma sim_wf_frame: "sim_wf s \<Longrightarrow> same_frame (mem s) m' \<Longrightarrow> sim_wf (s\<lparr>mem := m'\<rparr>)"
  using same_frame_callback same_frame_wf by (simp add: sim_wf_def)

lemma sim_wf_set_reg [simp]: "sim_wf (set_reg i v s) = sim_wf s"
  by (simp add: sim_wf_def set_reg_def)

lemma sim_wf_set_pc [simp]: "sim_wf (set_pc v s) = sim_wf s"
  by (simp add: sim_wf_def set_pc_def)

lemma preserves_lift_mem [intro]:
  assumes "\<And>m. same_frame m (snd (f m))"
  shows "preserves sim_wf (lift_mem f)"
  using assms sim_wf_frame by (auto simp: preserves_def lift_mem_def split: prod.split) (metis snd_conv)

lemma preserves_lift_cycle [intro]:
  assumes "\<And>c. scc_wf c \<Longrightarrow> scc_wf (snd (f c))"
  shows "preserves sim_wf (lift_cycle f)"
proof
  fix s assume wf: "sim_wf s"
  then obtain c where c: "session_cycle_callback (mem s) = Some c" by (auto simp: sim_wf_def)
  with wf assms [of c] show "sim_wf (snd (lift_cycle f s))"
    by (auto simp: lift_cycle_def sim_wf_def mem_wf_def split: prod.split)
qed

lemma same_frame_read_mem: "same_frame m (snd (read_mem a sz m))"
  by (simp add: read_mem_def read_mem_frame)

lemma same_frame_write_mem: "same_frame m (snd (write_mem a sz v m))"
  by (simp add: write_mem_def write_mem_frame)

lemma preserves_read_loop:
  assumes "\<And>a. preserves I (rd a)"
  shows "preserves I (read_loop rd e ptr i n)"
  by (induction n arbitrary: i) (use assms in \<open>auto intro!: preserves_bindM\<close>)

lemma preserves_write_loop:
  assumes "\<And>a v. preserves I (wr a v)"
  shows "preserves I (write_loop wr e ptr i bs)"
  by (induction bs arbitrary: i) (use assms in \<open>auto intro!: preserves_bindM\<close>)

section \<open>Properties of the channels\<close>

lemma get_set_channel [simp]: "get_channel ch (set_channel ch c s) = c"
  by (cases ch) simp_all

lemma sim_wf_set_channel: "sim_wf s \<Longrightarrow> cursor_wf c \<Longrightarrow> sim_wf (set_channel ch c s)"
  by (cases ch) (simp_all add: sim_wf_def)

lemma cursor_wf_channel: "sim_wf s \<Longrightarrow> cursor_wf (get_channel ch s)"
  by (cases ch) (simp_all add: sim_wf_def)

text \<open>
  Remark. Reading an output channel to its end yields exactly the bytes not read yet,
  and leaves nothing: a second read yields nothing more.
\<close>

theorem read_to_end_drains:
  assumes "get_write_fd fd s = (Ok ch, s)" and "sim_wf s"
  shows "\<exists>s'. sim_read_to_end fd dst s =
           (Ok (dst @ drop (position (get_channel ch s)) (get_ref (get_channel ch s))), s') \<and>
         sim_wf s' \<and> sim_read_to_end fd dst' s' = (Ok dst', s')"
proof -
  let ?c = "get_channel ch s"
  let ?s = "set_channel ch (?c\<lparr>position := length (get_ref ?c)\<rparr>) s"
  have c: "position ?c \<le> length (get_ref ?c)"
    using cursor_wf_channel [OF assms(2), of ch] by (simp add: cursor_wf_def)
  have fd: "get_write_fd fd t = (Ok ch, t)" for t
    using assms(1) by (auto simp: get_write_fd_def ret_def throw_def split: if_splits)
  have 1: "sim_read_to_end fd dst s = (Ok (dst @ drop (position ?c) (get_ref ?c)), ?s)"
    using c by (simp add: sim_read_to_end_def bindM_def fd getM_def modM_def ret_def cursor_read_def Let_def)
  have 2: "sim_read_to_end fd dst' ?s = (Ok dst', ?s)"
    by (cases ch; simp add: sim_read_to_end_def bindM_def fd getM_def modM_def ret_def cursor_read_def Let_def)
  have "sim_wf ?s" by (rule sim_wf_set_channel [OF assms(2)]) (simp add: cursor_wf_def)
  with 1 2 show ?thesis by auto
qed

end
