(* ===== verification/Syscall.thy ===== *)
theory Syscall
  imports Simulator
begin

text \<open>
  The software system calls of \<open>src/vm/syscall.rs\<close>: one definition per system call and the
  dispatch on the call's name.
\<close>

section \<open>UTF-8\<close>

text \<open>
  \<open>from_utf8\<close> of the standard library: the well-formed byte sequences of the Unicode
  standard, without overlong forms and surrogates.
\<close>

definition is_cont :: "u8 \<Rightarrow> bool" where
  "is_cont b \<longleftrightarrow> 0x80 \<le> b \<and> b \<le> 0xBF"

fun valid_utf8 :: "u8 list \<Rightarrow> bool" where
  "valid_utf8 [] = True"
| "valid_utf8 (a # bs) =
     (if a < 0x80 then valid_utf8 bs
      else if 0xC2 \<le> a \<and> a \<le> 0xDF then
        (case bs of b # rest \<Rightarrow> is_cont b \<and> valid_utf8 rest | _ \<Rightarrow> False)
      else if 0xE0 \<le> a \<and> a \<le> 0xEF then
        (case bs of
           b # c # rest \<Rightarrow>
             (if a = 0xE0 then 0xA0 \<le> b \<and> b \<le> 0xBF
              else if a = 0xED then 0x80 \<le> b \<and> b \<le> 0x9F
              else is_cont b) \<and> is_cont c \<and> valid_utf8 rest
         | _ \<Rightarrow> False)
      else if 0xF0 \<le> a \<and> a \<le> 0xF4 then
        (case bs of
           b # c # d # rest \<Rightarrow>
             (if a = 0xF0 then 0x90 \<le> b \<and> b \<le> 0xBF
              else if a = 0xF4 then 0x80 \<le> b \<and> b \<le> 0x8F
              else is_cont b) \<and> is_cont c \<and> is_cont d \<and> valid_utf8 rest
         | _ \<Rightarrow> False)
      else False)"

definition from_utf8 :: "u8 list \<Rightarrow> (Simulator, vm_error, u8 list) M" where
  "from_utf8 bs = (if valid_utf8 bs then ret bs else throw InvalidUtf8)"

text \<open>The bytes of an ASCII string literal.\<close>

definition ascii :: "string \<Rightarrow> u8 list" where
  "ascii s = map of_char s"

definition sys_name :: "string \<Rightarrow> u8 list" where
  "sys_name n = ascii (''risc0_zkvm_platform::syscall::nr::'' @ n)"

section \<open>The system calls\<close>

text \<open>The two result registers.\<close>

definition ret_regs :: "u32 \<Rightarrow> u32 \<Rightarrow> (Simulator, vm_error, unit) M" where
  "ret_regs a0 a1 = modM (\<lambda>s. set_reg REG_A1 a1 (set_reg REG_A0 a0 s))"

text \<open>The loop that copies \<open>len\<close> bytes out of the guest's memory.\<close>

definition read_guest :: "vm_error \<Rightarrow> u32 \<Rightarrow> u32 \<Rightarrow> (Simulator, vm_error, u8 list) M" where
  "read_guest e buf_ptr buf_len =
     lift_mem (read_loop (\<lambda>a. read_mem a Byte) e buf_ptr 0 (unat buf_len))"

text \<open>
  \<open>to_guest\<close> is the slice of words that goes back to the guest; each call returns it as it
  leaves it. Copying bytes into the slice's beginning:
\<close>

definition fill_to_guest :: "u32 list \<Rightarrow> u8 list \<Rightarrow> u32 list" where
  "fill_to_guest to_guest bs =
     bytes_to_words (bs @ drop (length bs) (words_to_bytes to_guest))"

definition sys_random :: "externs \<Rightarrow> u32 list \<Rightarrow> (Simulator, vm_error, u32 list) M" where
  "sys_random ext to_guest =
     bindM (getM random_calls) (\<lambda>k.
     bindM (modM (\<lambda>s. s\<lparr>random_calls := Suc k\<rparr>)) (\<lambda>_.
     if \<not> random_ok ext k then throw RandomFailed
     else
       bindM (ret_regs 0 0) (\<lambda>_.
       ret (bytes_to_words (map (random_byte ext k) [0..<length to_guest * 4])))))"

definition sys_cycle_count :: "u32 list \<Rightarrow> (Simulator, vm_error, u32 list) M" where
  "sys_cycle_count to_guest =
     bindM (lift_cycle (getM get_session_cycle)) (\<lambda>n.
     bindM (ret_regs (of_nat n) 0) (\<lambda>_.
     ret to_guest))"

definition sys_panic :: "u32 list \<Rightarrow> (Simulator, vm_error, u32 list) M" where
  "sys_panic to_guest =
     bindM (getM (reg REG_A3)) (\<lambda>buf_ptr.
     bindM (getM (reg REG_A4)) (\<lambda>buf_len.
     bindM (read_guest PanicMessageUnreadable buf_ptr buf_len) (\<lambda>from_guest.
     bindM (from_utf8 from_guest) (\<lambda>msg.
     throw (GuestPanicked msg)))))"

definition sys_getenv :: "u32 list \<Rightarrow> (Simulator, vm_error, u32 list) M" where
  "sys_getenv to_guest =
     bindM (getM (reg REG_A3)) (\<lambda>buf_ptr.
     bindM (getM (reg REG_A4)) (\<lambda>buf_len.
     bindM (read_guest EnvNameUnreadable buf_ptr buf_len) (\<lambda>from_guest.
     bindM (from_utf8 from_guest) (\<lambda>msg.
     bindM (getM (\<lambda>s. env s msg)) (\<lambda>found.
     case found of
       None \<Rightarrow> bindM (ret_regs (- 1) 0) (\<lambda>_. ret to_guest)
     | Some val \<Rightarrow>
         (let nbytes = min (length to_guest * 4) (length val) in
          bindM (ret_regs (of_nat (length val)) 0) (\<lambda>_.
          ret (fill_to_guest to_guest (take nbytes val)))))))))"

text \<open>
  \<open>read_all\<close>: reads until the buffer (here the number of bytes it still has room for) is
  full or nothing more comes; the result is what was read.
\<close>

function read_all :: "Cursor \<Rightarrow> nat \<Rightarrow> u8 list \<times> Cursor" where
  "read_all c room =
     (if room = 0 then ([], c)
      else (case cursor_read room c of
              (bs, c') \<Rightarrow>
                if bs = [] then ([], c')
                else (case read_all c' (room - length bs) of
                        (bs2, c'') \<Rightarrow> (bs @ bs2, c''))))"
  by pat_completeness auto
termination
  by (relation "measure snd") (auto simp: cursor_read_def Let_def)

declare read_all.simps [simp del]

definition sys_read :: "u32 list \<Rightarrow> (Simulator, vm_error, u32 list) M" where
  "sys_read to_guest =
     bindM (getM (reg REG_A3)) (\<lambda>fd.
     bindM (getM (\<lambda>s. unat (reg REG_A4 s))) (\<lambda>nbytes.
     bindM (assertM (nbytes \<ge> length to_guest * 4)) (\<lambda>_.
     if fd \<noteq> STDIN then throw (BadReadFd fd)
     else
       bindM (getM stdin) (\<lambda>inp.
       case read_all inp (length to_guest * 4) of (bs, inp') \<Rightarrow>
       bindM (modM (\<lambda>s. s\<lparr>stdin := inp'\<rparr>)) (\<lambda>_.
       bindM (assertM (length bs = length to_guest * 4)) (\<lambda>_.
       (let unaligned_end = nbytes - length bs in
        bindM (assertM (unaligned_end \<le> 4)) (\<lambda>_.
        case read_all inp' unaligned_end of (end_bs, inp'') \<Rightarrow>
        bindM (modM (\<lambda>s. s\<lparr>stdin := inp''\<rparr>)) (\<lambda>_.
        bindM (ret_regs (of_nat (length bs + length end_bs))
                 (le_word (end_bs @ replicate (4 - length end_bs) 0))) (\<lambda>_.
        ret (fill_to_guest to_guest bs)))))))))))"

definition sys_read_avail :: "u32 list \<Rightarrow> (Simulator, vm_error, u32 list) M" where
  "sys_read_avail to_guest =
     bindM (getM (reg REG_A3)) (\<lambda>fd.
     if fd \<noteq> STDIN then throw (BadReadFd fd)
     else
       bindM (getM stdin) (\<lambda>inp.
       if length (get_ref inp) < position inp then panicM ArithOverflow
       else
         bindM (ret_regs (of_nat (length (get_ref inp) - position inp)) 0) (\<lambda>_.
         ret to_guest)))"

text \<open>\<open>fd.get_mut().extend_from_slice(..)\<close>.\<close>

definition extend_channel :: "channel \<Rightarrow> u8 list \<Rightarrow> (Simulator, vm_error, unit) M" where
  "extend_channel ch bs =
     modM (\<lambda>s. set_channel ch
       ((get_channel ch s)\<lparr>get_ref := get_ref (get_channel ch s) @ bs\<rparr>) s)"

definition sys_write :: "u32 list \<Rightarrow> (Simulator, vm_error, u32 list) M" where
  "sys_write to_guest =
     bindM (getM (reg REG_A3)) (\<lambda>fd.
     bindM (getM (reg REG_A4)) (\<lambda>buf_ptr.
     bindM (getM (reg REG_A5)) (\<lambda>buf_len.
     bindM (read_guest WriteDataUnreadable buf_ptr buf_len) (\<lambda>from_guest_bytes.
     bindM (get_write_fd fd) (\<lambda>ch.
     bindM (extend_channel ch from_guest_bytes) (\<lambda>_.
     bindM (ret_regs 0 0) (\<lambda>_.
     ret to_guest)))))))"

definition sys_log :: "u32 list \<Rightarrow> (Simulator, vm_error, u32 list) M" where
  "sys_log to_guest =
     bindM (getM (reg REG_A3)) (\<lambda>buf_ptr.
     bindM (getM (reg REG_A4)) (\<lambda>buf_len.
     bindM (read_guest LogDataUnreadable buf_ptr buf_len) (\<lambda>from_guest_bytes.
     bindM (extend_channel ChStdout from_guest_bytes) (\<lambda>_.
     bindM (ret_regs 0 0) (\<lambda>_.
     ret to_guest)))))"

definition sys_verify :: "u32 list \<Rightarrow> (Simulator, vm_error, u32 list) M" where
  "sys_verify to_guest = bindM (ret_regs 0 0) (\<lambda>_. ret to_guest)"

definition sys_argc :: "u32 list \<Rightarrow> (Simulator, vm_error, u32 list) M" where
  "sys_argc to_guest =
     bindM (getM (\<lambda>s. length (args s))) (\<lambda>n.
     bindM (ret_regs (of_nat n) 0) (\<lambda>_.
     ret to_guest))"

definition sys_args :: "u32 list \<Rightarrow> (Simulator, vm_error, u32 list) M" where
  "sys_args to_guest =
     bindM (getM (reg REG_A3)) (\<lambda>arg_index.
     bindM (getM args) (\<lambda>argv.
     if length argv \<le> unat arg_index then throw (ArgIndexOutOfRange arg_index (length argv))
     else
       (let arg_val = argv ! unat arg_index;
            nbytes = min (length to_guest * 4) (length arg_val) in
        bindM (ret_regs (of_nat (length arg_val)) 0) (\<lambda>_.
        ret (fill_to_guest to_guest (take nbytes arg_val))))))"

text \<open>
  The dispatch. The source returns \<open>Ok(None)\<close> from every branch that succeeds, and for a
  name it does not know.
\<close>

definition handle_syscall ::
    "externs \<Rightarrow> u8 list \<Rightarrow> u32 list \<Rightarrow> (Simulator, vm_error, u32 list \<times> ExitCode option) M" where
  "handle_syscall ext syscall_name to_guest =
     bindM
       (if syscall_name = sys_name ''SYS_RANDOM'' then sys_random ext to_guest
        else if syscall_name = sys_name ''SYS_CYCLE_COUNT'' then sys_cycle_count to_guest
        else if syscall_name = sys_name ''SYS_PANIC'' then sys_panic to_guest
        else if syscall_name = sys_name ''SYS_GETENV'' then sys_getenv to_guest
        else if syscall_name = sys_name ''SYS_READ'' then sys_read to_guest
        else if syscall_name = sys_name ''SYS_READ_AVAIL'' then sys_read_avail to_guest
        else if syscall_name = sys_name ''SYS_WRITE'' then sys_write to_guest
        else if syscall_name = sys_name ''SYS_LOG'' then sys_log to_guest
        else if syscall_name = sys_name ''SYS_VERIFY''
             \<or> syscall_name = sys_name ''SYS_VERIFY_INTEGRITY'' then sys_verify to_guest
        else if syscall_name = sys_name ''SYS_ARGC'' then sys_argc to_guest
        else if syscall_name = sys_name ''SYS_ARGS'' then sys_args to_guest
        else ret to_guest)
       (\<lambda>to_guest'. ret (to_guest', None))"

section \<open>Guest ranges\<close>

text \<open>A range of bytes within the guest's memory.\<close>

definition guest_range :: "u32 \<Rightarrow> nat \<Rightarrow> bool" where
  "guest_range ptr n \<longleftrightarrow> GUEST_MIN_MEM \<le> unat ptr \<and> unat ptr + n \<le> GUEST_MAX_MEM + 1"

lemma guest_range_mapped:
  assumes "guest_range ptr n"
  shows "unat ptr + n \<le> 4294967296" and "k < n \<Longrightarrow> in_range (ptr + of_nat k)"
proof -
  show "unat ptr + n \<le> 4294967296" using assms by (simp add: guest_range_def cfg_simps)
  assume k: "k < n"
  with assms have "unat ptr + k < 4294967296" by (simp add: guest_range_def cfg_simps)
  with k assms have "unat (ptr + of_nat k) = unat ptr + k"
    by (simp add: unat_add32)
  with k assms show "in_range (ptr + of_nat k)"
    by (simp add: in_range_def out_of_range_def guest_range_def)
qed

lemma read_guest_ok:
  assumes "guest_inv (mem s)" and "guest_range ptr (unat len)"
  shows "\<exists>m'. read_guest e ptr len s = (Ok (load (byte_at (mem s)) ptr (unat len)), s\<lparr>mem := m'\<rparr>) \<and>
           guest_inv m' \<and> byte_at m' = byte_at (mem s)"
  using guest_store.read_loop_ok [of "mem s" ptr 0 "unat len" e] assms guest_range_mapped [OF assms(2)]
  by (auto simp: read_guest_def lift_mem_def)

lemma read_guest_unmapped:
  assumes "guest_inv (mem s)" and "\<not> in_range ptr" and "0 < unat len"
  shows "read_guest e ptr len s = (Err e, s)"
proof -
  obtain n where "unat len = Suc n" using assms(3) by (metis Suc_pred)
  then show ?thesis
    using guest_store.read_loop_unmapped [of "mem s" ptr 0 e n] assms by (simp add: read_guest_def lift_mem_def)
qed

section \<open>The invariant\<close>

lemma mem_read_loop_frame: "same_frame m (snd (read_loop (\<lambda>a. read_mem a sz) e ptr i n m))"
proof -
  have "preserves (same_frame m) (read_loop (\<lambda>a. read_mem a sz) e ptr i n)"
    by (rule preserves_read_loop) (auto simp: preserves_def intro: same_frame_trans same_frame_read_mem)
  then show ?thesis by (simp add: preserves_def)
qed

lemma mem_write_loop_frame: "same_frame m (snd (write_loop (\<lambda>a v. write_mem a sz v) e ptr i bs m))"
proof -
  have "preserves (same_frame m) (write_loop (\<lambda>a v. write_mem a sz v) e ptr i bs)"
    by (rule preserves_write_loop) (auto simp: preserves_def intro: same_frame_trans same_frame_write_mem)
  then show ?thesis by (simp add: preserves_def)
qed

lemma preserves_read_guest [simp, intro]: "preserves sim_wf (read_guest e p n)"
  by (auto simp: read_guest_def mem_read_loop_frame)

lemma preserves_ret_regs [simp, intro]: "preserves sim_wf (ret_regs a b)"
  by (auto simp: ret_regs_def)

lemma preserves_from_utf8 [simp, intro]: "preserves sim_wf (from_utf8 bs)"
  by (auto simp: from_utf8_def)

lemma preserves_get_write_fd [simp, intro]: "preserves I (get_write_fd fd)"
  by (simp add: get_write_fd_def)

lemma preserves_extend_channel [simp, intro]: "preserves sim_wf (extend_channel ch bs)"
  unfolding extend_channel_def
proof (rule preserves_modM)
  fix s assume wf: "sim_wf s"
  show "sim_wf (set_channel ch ((get_channel ch s)\<lparr>get_ref := get_ref (get_channel ch s) @ bs\<rparr>) s)"
    using cursor_wf_channel [OF wf, of ch] by (intro sim_wf_set_channel wf) (simp add: cursor_wf_def)
qed

text \<open>\<open>read_all\<close> is one read: a cursor over a vector never returns less than it can.\<close>

lemma read_all_cursor_read: "cursor_wf c \<Longrightarrow> read_all c n = cursor_read n c"
proof (induction c n rule: read_all.induct)
  case (1 c n)
  let ?rest = "drop (position c) (get_ref c)"
  let ?c' = "c\<lparr>position := position c + length (take n ?rest)\<rparr>"
  show ?case
  proof (cases "n = 0 \<or> ?rest = []")
    case True
    then show ?thesis by (subst read_all.simps) (auto simp: cursor_read_def Let_def)
  next
    case False
    then have ne: "take n ?rest \<noteq> []" "n \<noteq> 0" by auto
    have wf: "cursor_wf ?c'" using 1 by (auto simp: cursor_wf_def)
    have step: "cursor_read n c = (take n ?rest, ?c')" by (simp add: cursor_read_def Let_def)
    have "read_all ?c' (n - length (take n ?rest)) = cursor_read (n - length (take n ?rest)) ?c'"
      using "1.IH" [OF ne(2) step [symmetric] ne(1) wf] .
    moreover have "cursor_read (n - length (take n ?rest)) ?c' = ([], ?c')"
      by (auto simp: cursor_read_def Let_def min_def)
    ultimately show ?thesis
      using ne step by (subst read_all.simps) simp
  qed
qed

lemma preserves_sys_read: "preserves sim_wf (sys_read to_guest)"
proof
  fix s assume wf: "sim_wf s"
  then have c: "cursor_wf (stdin s)" by (simp add: sim_wf_def)
  obtain bs c1 where 1: "cursor_read (length to_guest * 4) (stdin s) = (bs, c1)" by fastforce
  then have c1: "cursor_wf c1" using cursor_wf_read [OF c] by (metis snd_conv)
  obtain es c2 where 2: "cursor_read (unat (reg REG_A4 s) - length bs) c1 = (es, c2)" by fastforce
  then have c2: "cursor_wf c2" using cursor_wf_read [OF c1] by (metis snd_conv)
  show "sim_wf (snd (sys_read to_guest s))"
    using wf c1 c2
    by (simp add: sys_read_def bindM_def getM_def assertM_def ret_def panicM_def throw_def modM_def
        read_all_cursor_read [OF c] read_all_cursor_read [OF c1] 1 2 Let_def ret_regs_def)
      (simp add: sim_wf_def)
qed

lemma preserves_getM_bind:
  "(\<And>x. preserves I (f x)) \<Longrightarrow> preserves I (bindM (getM g) f)"
  by auto

lemma preserves_handle_syscall: "preserves sim_wf (handle_syscall ext name to_guest)"
proof -
  have "preserves sim_wf (sys_random ext to_guest)" "preserves sim_wf (sys_cycle_count to_guest)"
    "preserves sim_wf (sys_panic to_guest)" "preserves sim_wf (sys_read_avail to_guest)"
    "preserves sim_wf (sys_write to_guest)" "preserves sim_wf (sys_log to_guest)"
    "preserves sim_wf (sys_verify to_guest)" "preserves sim_wf (sys_argc to_guest)"
    by (auto simp: sys_random_def sys_cycle_count_def sys_panic_def sys_read_avail_def sys_write_def
        sys_log_def sys_verify_def sys_argc_def sim_wf_def getM_def intro!: preserves_bindM preserves_modM
        preserves_lift_cycle)
  moreover have "preserves sim_wf (sys_getenv to_guest)" "preserves sim_wf (sys_args to_guest)"
    by (auto simp: sys_getenv_def sys_args_def Let_def intro!: preserves_bindM split: option.split)
  ultimately show ?thesis
    using preserves_sys_read unfolding handle_syscall_def by (intro preserves_bindM) auto
qed

section \<open>Properties\<close>

lemma reg_set_reg:
  "length (registers (hart_state s)) = 32 \<Longrightarrow> i < 32 \<Longrightarrow>
     reg j (set_reg i v s) = (if j = i then v else reg j s)"
  by (simp add: reg_def set_reg_def nth_list_update)

lemma ret_regs_spec: "ret_regs a b s = (Ok (), set_reg REG_A1 b (set_reg REG_A0 a s))"
  by (simp add: ret_regs_def modM_def)

lemma set_reg_simps [simp]:
  "mem (set_reg i v s) = mem s" "env (set_reg i v s) = env s" "stdin (set_reg i v s) = stdin s"
  "get_channel ch (set_reg i v s) = get_channel ch s" "args (set_reg i v s) = args s"
  "length (registers (hart_state (set_reg i v s))) = length (registers (hart_state s))"
  by (cases ch; simp add: set_reg_def)+

lemma words_to_bytes_fill:
  assumes "length bs \<le> 4 * length to_guest"
  shows "words_to_bytes (fill_to_guest to_guest bs) = bs @ drop (length bs) (words_to_bytes to_guest)"
  using assms by (simp add: fill_to_guest_def words_to_bytes_inverse)

lemma length_fill [simp]:
  "length bs \<le> 4 * length to_guest \<Longrightarrow> length (fill_to_guest to_guest bs) = length to_guest"
  by (simp add: fill_to_guest_def)

lemma result_regs:
  assumes "sim_wf s"
  shows "reg REG_A0 (set_reg REG_A1 b (set_reg REG_A0 a s)) = a"
    and "reg REG_A1 (set_reg REG_A1 b (set_reg REG_A0 a s)) = b"
  using assms by (simp_all add: reg_set_reg sim_wf_def cfg_simps)

text \<open>
  A \<open>SYS_READ\<close> that finds enough input hands the guest the next
  \<open>min nbytes available\<close> bytes of the standard input, in order: whole words through the
  buffer, up to four bytes through the second result register, the count through the
  first; and it consumes exactly these bytes.
\<close>

lemma sys_read_ok:
  assumes wf: "sim_wf s" and fd: "reg REG_A3 s = STDIN"
    and nb: "4 * length to_guest \<le> unat (reg REG_A4 s)" "unat (reg REG_A4 s) \<le> 4 * length to_guest + 4"
    and avail: "avail = drop (position (stdin s)) (get_ref (stdin s))" "4 * length to_guest \<le> length avail"
    and n: "n = min (unat (reg REG_A4 s)) (length avail)"
  shows "\<exists>words s'. sys_read to_guest s = (Ok words, s') \<and> length words = length to_guest \<and>
     words_to_bytes words @ take (n - 4 * length to_guest) (to_le_bytes (reg REG_A1 s')) = take n avail \<and>
     reg REG_A0 s' = of_nat n \<and>
     drop (position (stdin s')) (get_ref (stdin s')) = drop n avail \<and> sim_wf s' \<and>
     mem s' = mem s \<and> pc (hart_state s') = pc (hart_state s)"
proof -
  let ?m = "4 * length to_guest" and ?k = "unat (reg REG_A4 s)"
  have c: "cursor_wf (stdin s)" using wf by (simp add: sim_wf_def)
  obtain bs c1 where r1: "cursor_read ?m (stdin s) = (bs, c1)" by fastforce
  then have bs: "bs = take ?m avail" "length bs = ?m"
    and c1: "c1 = (stdin s)\<lparr>position := position (stdin s) + ?m\<rparr>"
    using avail by (auto simp: cursor_read_def Let_def)
  have wf1: "cursor_wf c1" using cursor_wf_read [OF c] r1 by (metis snd_conv)
  obtain e c2 where r2: "cursor_read (?k - ?m) c1 = (e, c2)" by fastforce
  then have e: "e = take (?k - ?m) (drop ?m avail)"
    and c2: "c2 = c1\<lparr>position := position c1 + length e\<rparr>"
    using avail c1 by (auto simp: cursor_read_def Let_def drop_drop add.commute)
  have wf2: "cursor_wf c2" using cursor_wf_read [OF wf1] r2 by (metis snd_conv)
  have "?k - ?m \<le> 4" using nb(2) by simp
  have le: "length e = n - ?m" "length e \<le> 4" "?m \<le> n" using nb avail(2) n e by auto
  let ?s = "s\<lparr>stdin := c2\<rparr>"
  have wfs: "sim_wf ?s" using wf wf2 by (simp add: sim_wf_def)
  let ?a1 = "le_word (e @ replicate (4 - length e) 0)"
  let ?s' = "set_reg REG_A1 ?a1 (set_reg REG_A0 (of_nat (length bs + length e)) ?s)"
  have run: "sys_read to_guest s = (Ok (fill_to_guest to_guest bs), ?s')"
    using nb(1) \<open>?k - ?m \<le> 4\<close>
    by (simp add: sys_read_def bindM_def getM_def assertM_def ret_def modM_def Let_def fd
        read_all_cursor_read [OF c] read_all_cursor_read [OF wf1] r1 r2 ret_regs_spec
        mult.commute [of _ 4] bs(2) del: of_nat_add)
  have "to_le_bytes ?a1 = e @ replicate (4 - length e) 0"
    using le by (intro to_le_bytes_le_word) simp
  then have "take (n - ?m) (to_le_bytes (reg REG_A1 ?s')) = e"
    unfolding result_regs [OF wfs] using le(1) by simp
  moreover have "words_to_bytes (fill_to_guest to_guest bs) = bs"
    using bs(2) by (subst words_to_bytes_fill) simp_all
  moreover have "bs @ e = take n avail"
    using le n nb avail(2) bs(1) e take_add [of ?m "n - ?m" avail] by (auto simp: min_def)
  moreover have "reg REG_A0 ?s' = of_nat n"
    unfolding result_regs [OF wfs] using le bs(2) by simp
  moreover have "drop (position (stdin ?s')) (get_ref (stdin ?s')) = drop n avail"
    using avail le c1 c2 by (simp add: drop_drop ac_simps)
  moreover have "sim_wf ?s'" using wfs by simp
  moreover have "length (fill_to_guest to_guest bs) = length to_guest" using bs(2) by simp
  moreover have "mem ?s' = mem s" "pc (hart_state ?s') = pc (hart_state s)" by (simp_all add: set_reg_def)
  ultimately show ?thesis
    using run by (intro exI [of _ "fill_to_guest to_guest bs"] exI [of _ ?s']) simp
qed

lemma pc_set_reg: "pc (hart_state (set_reg i v s)) = pc (hart_state s)"
  by (simp add: set_reg_def)

text \<open>
  \<open>SYS_WRITE\<close> appends the guest's bytes to the channel it names, leaves every
  byte of the memory as it was, and reports success.
\<close>

lemma sys_write_ok:
  assumes wf: "sim_wf s" and fit: "watchpoints_fit (mem s)"
    and rng: "guest_range (reg REG_A4 s) (unat (reg REG_A5 s))"
    and ch: "get_write_fd (reg REG_A3 s) s = (Ok ch, s)"
  shows "\<exists>s'. sys_write to_guest s = (Ok to_guest, s') \<and>
     get_ref (get_channel ch s') = get_ref (get_channel ch s) @
       load (byte_at (mem s)) (reg REG_A4 s) (unat (reg REG_A5 s)) \<and>
     position (get_channel ch s') = position (get_channel ch s) \<and>
     byte_at (mem s') = byte_at (mem s) \<and> reg REG_A0 s' = 0 \<and> reg REG_A1 s' = 0 \<and>
     guest_inv (mem s') \<and> pc (hart_state s') = pc (hart_state s)"
proof -
  have inv: "guest_inv (mem s)" using wf fit by (simp add: guest_inv_def sim_wf_def)
  obtain m' where m: "read_guest WriteDataUnreadable (reg REG_A4 s) (reg REG_A5 s) s =
      (Ok (load (byte_at (mem s)) (reg REG_A4 s) (unat (reg REG_A5 s))), s\<lparr>mem := m'\<rparr>)"
    and b: "byte_at m' = byte_at (mem s)" "guest_inv m'"
    using read_guest_ok [OF inv rng] by blast
  have fd: "get_write_fd (reg REG_A3 s) t = (Ok ch, t)" for t
    using ch by (auto simp: get_write_fd_def ret_def throw_def split: if_splits)
  let ?c = "(get_channel ch s)\<lparr>get_ref := get_ref (get_channel ch s) @
      load (byte_at (mem s)) (reg REG_A4 s) (unat (reg REG_A5 s))\<rparr>"
  let ?s = "set_channel ch ?c (s\<lparr>mem := m'\<rparr>)"
  have "sys_write to_guest s = (Ok to_guest, set_reg REG_A1 0 (set_reg REG_A0 0 ?s))"
    by (cases ch) (simp_all add: sys_write_def bindM_def getM_def m fd extend_channel_def modM_def
        ret_regs_spec ret_def)
  moreover have "length (registers (hart_state ?s)) = 32"
    using wf by (cases ch) (simp_all add: sim_wf_def)
  moreover have "byte_at (mem ?s) = byte_at (mem s)" using b(1) by (cases ch) simp_all
  moreover have "mem ?s = m'" "pc (hart_state ?s) = pc (hart_state s)" by (cases ch; simp)+
  ultimately show ?thesis
    using b by (intro exI [of _ "set_reg REG_A1 0 (set_reg REG_A0 0 ?s)"])
      (simp add: reg_set_reg cfg_simps pc_set_reg)
qed

lemma returns_if: "returns P a \<Longrightarrow> returns P b \<Longrightarrow> returns P (if c then a else b)"
  by simp

lemma returns_bindM_result:
  "returns P m \<Longrightarrow> (\<And>x. P x \<Longrightarrow> returns Q (f x)) \<Longrightarrow> returns Q (bindM m f)"
  unfolding returns_def bindM_eq_Ok by blast

lemma returns_handle_syscall:
  "returns (\<lambda>(tg, x). x = None \<and> length tg = length to_guest) (handle_syscall ext name to_guest)"
proof -
  let ?P = "\<lambda>tg :: u32 list. length tg = length to_guest"
  have "returns ?P (sys_random ext to_guest)" "returns ?P (sys_cycle_count to_guest)"
    "returns ?P (sys_panic to_guest)" "returns ?P (sys_getenv to_guest)"
    "returns ?P (sys_read_avail to_guest)" "returns ?P (sys_write to_guest)"
    "returns ?P (sys_log to_guest)" "returns ?P (sys_verify to_guest)"
    "returns ?P (sys_argc to_guest)" "returns ?P (sys_args to_guest)"
    by (auto simp: sys_random_def sys_cycle_count_def sys_panic_def sys_getenv_def sys_read_avail_def
        sys_write_def sys_log_def sys_verify_def sys_argc_def sys_args_def Let_def split: option.split
        intro!: returns_bindM)
  moreover have "returns ?P (sys_read to_guest)"
    by (auto simp: sys_read_def Let_def split: prod.split intro!: returns_bindM returns_bindM_assertM)
  moreover have "returns ?P (ret to_guest)" by simp
  ultimately show ?thesis
    unfolding handle_syscall_def
    by (intro returns_bindM_result [where P = ?P] returns_if) simp_all
qed

text \<open>
  Remark. A system call never stops the program by itself (the exit code the ecall
  handler tests for is never there) and returns as many words as it was given.
\<close>

theorem syscall_never_exits:
  assumes "handle_syscall ext name to_guest s = (Ok (tg, x), s')"
  shows "x = None \<and> length tg = length to_guest"
  using returnsD [OF returns_handle_syscall assms] by simp

end
