(* ===== verification/Debugger.thy ===== *)
theory Debugger
  imports Syscall
begin

text \<open>
  The debugger of \<open>src/debug\<close>: its state, and the operations the protocol stub calls on it:
  registers and memory (\<open>readwrite.rs\<close>), breakpoints and watchpoints (\<open>breakpoints.rs\<close>), the
  resume modes (\<open>step.rs\<close>), the file the client reads (\<open>host_io.rs\<close>, \<open>mod.rs\<close>) and the monitor
  command (\<open>monitor.rs\<close>).
\<close>

section \<open>State\<close>

datatype ExecMode = Step | Continue | RangeStep u32 u32 | Interrupted

text \<open>The simulator is a shared cell with this one user while a debugger runs.\<close>

record Debugger =
  elf :: "u8 list"
  simulator :: Simulator
  exec_mode :: ExecMode
  breakpoints :: "u32 set"

text \<open>
  The errors an operation hands to the stub: \<open>TargetError::NonFatal\<close>, an error of the target
  (\<open>Self::Error\<close>, a string), and the error numbers of the host's files.
\<close>

datatype dbg_error = NonFatal | TargetErr string | ENOENT | EBADF

type_synonym 'a dbg = "(Debugger, dbg_error, 'a) M"

text \<open>Running an access on the simulator's memory. It has no error values of its own.\<close>

definition on_mem :: "(Memory, vm_error, 'a) M \<Rightarrow> 'a dbg" where
  "on_mem f d =
     (case f (mem (simulator d)) of
        (r, m) \<Rightarrow> (map_outcome (\<lambda>_. NonFatal) id r,
                   d\<lparr>simulator := (simulator d)\<lparr>mem := m\<rparr>\<rparr>))"

definition set_hart :: "(HartState \<Rightarrow> HartState) \<Rightarrow> Debugger \<Rightarrow> Debugger" where
  "set_hart f d = d\<lparr>simulator := (simulator d)\<lparr>hart_state := f (hart_state (simulator d))\<rparr>\<rparr>"

section \<open>Registers\<close>

text \<open>\<open>RiscvCoreRegs\<close> of \<open>gdbstub_arch\<close>: the registers \<open>x\<close> and the program counter.\<close>

definition read_registers :: "(u32 list \<times> u32) dbg" where
  "read_registers = getM (\<lambda>d. (registers (hart_state (simulator d)), pc (hart_state (simulator d))))"

definition write_registers :: "u32 list \<times> u32 \<Rightarrow> unit dbg" where
  "write_registers regs = modM (set_hart (\<lambda>h. h\<lparr>registers := fst regs, pc := snd regs\<rparr>))"

datatype RiscvRegId = Gpr u8 | Fpr u8 | Pc | Csr "16 word" | Priv

text \<open>\<open>copy_from_slice\<close> panics unless both slices have the same length.\<close>

definition copy_from_slice :: "u8 list \<Rightarrow> u8 list \<Rightarrow> u8 list dbg" where
  "copy_from_slice buf bytes =
     (if length buf = length bytes then ret bytes else panicM IndexOutOfBounds)"

text \<open>The result is the length written and the buffer.\<close>

definition read_register :: "RiscvRegId \<Rightarrow> u8 list \<Rightarrow> (nat \<times> u8 list) dbg" where
  "read_register reg_id buf =
     (case reg_id of
        Gpr idx \<Rightarrow>
          bindM (getM (\<lambda>d. registers (hart_state (simulator d)))) (\<lambda>regs.
          if length regs \<le> unat idx then panicM IndexOutOfBounds
          else
            bindM (copy_from_slice buf (to_le_bytes (regs ! unat idx))) (\<lambda>buf'.
            ret (length buf', buf')))
      | Fpr _ \<Rightarrow> throw NonFatal
      | Pc \<Rightarrow>
          bindM (getM (\<lambda>d. pc (hart_state (simulator d)))) (\<lambda>p.
          bindM (copy_from_slice buf (to_le_bytes p)) (\<lambda>buf'.
          ret (length buf', buf')))
      | Csr _ \<Rightarrow> throw NonFatal
      | Priv \<Rightarrow> throw NonFatal)"

definition write_register :: "RiscvRegId \<Rightarrow> u8 list \<Rightarrow> unit dbg" where
  "write_register reg_id val =
     (case reg_id of
        Gpr idx \<Rightarrow>
          if length val < 4 then panicM IndexOutOfBounds
          else
            bindM (getM (\<lambda>d. length (registers (hart_state (simulator d))))) (\<lambda>n.
            if n \<le> unat idx then panicM IndexOutOfBounds
            else modM (set_hart (\<lambda>h. h\<lparr>registers := (registers h)[unat idx := le_word (take 4 val)]\<rparr>)))
      | Fpr _ \<Rightarrow> throw NonFatal
      | Pc \<Rightarrow>
          if length val < 4 then panicM IndexOutOfBounds
          else modM (set_hart (\<lambda>h. h\<lparr>pc := le_word (take 4 val)\<rparr>))
      | Csr _ \<Rightarrow> throw NonFatal
      | Priv \<Rightarrow> throw NonFatal)"

section \<open>Memory\<close>

text \<open>
  The loop over the addresses below \<open>end_addr\<close> and the places of the buffer; the result is the
  buffer afterwards.
\<close>

fun read_addrs_loop :: "u32 \<Rightarrow> u32 \<Rightarrow> u8 list \<Rightarrow> u8 list dbg" where
  "read_addrs_loop addr end_addr [] = ret []"
| "read_addrs_loop addr end_addr (val # data) =
     (if addr < end_addr then
        bindM (on_mem (read_mem_with_privileges addr Byte True)) (\<lambda>r.
        bindM (ok_or NonFatal r) (\<lambda>v.
        bindM (read_addrs_loop (addr + 1) end_addr data) (\<lambda>rest.
        ret (ucast v # rest))))
      else ret (val # data))"

definition read_addrs :: "u32 \<Rightarrow> u8 list \<Rightarrow> (nat \<times> u8 list) dbg" where
  "read_addrs start_addr data =
     (if \<not> (GUEST_MIN_MEM \<le> unat start_addr \<and> unat start_addr < GUEST_MAX_MEM) then throw NonFatal
      else
        bindM (add32 start_addr (of_nat (length data))) (\<lambda>t.
        let end_addr = min t (of_nat GUEST_MAX_MEM) in
        bindM (read_addrs_loop start_addr end_addr data) (\<lambda>data'.
        ret (unat (end_addr - start_addr), data'))))"

text \<open>
  The loop over \<open>(start_addr..).zip(data)\<close>: the iterator of the addresses is advanced first,
  and advancing it at the last address overflows.
\<close>

fun write_addrs :: "u32 \<Rightarrow> u8 list \<Rightarrow> unit dbg" where
  "write_addrs addr data =
     (if addr = - 1 then panicM ArithOverflow
      else
        (case data of
           [] \<Rightarrow> ret ()
         | val # rest \<Rightarrow>
             bindM (on_mem (write_mem_with_privileges addr Byte (ucast val) True)) (\<lambda>res.
             if \<not> res then throw NonFatal
             else write_addrs (addr + 1) rest)))"

declare write_addrs.simps [simp del]

section \<open>Breakpoints and watchpoints\<close>

text \<open>\<open>HashSet::insert\<close> and \<open>HashSet::remove\<close> tell whether the set has changed.\<close>

definition add_sw_breakpoint :: "u32 \<Rightarrow> bool dbg" where
  "add_sw_breakpoint addr =
     bindM (getM (\<lambda>d. addr \<notin> breakpoints d)) (\<lambda>b.
     bindM (modM (\<lambda>d. d\<lparr>breakpoints := insert addr (breakpoints d)\<rparr>)) (\<lambda>_.
     ret b))"

definition remove_sw_breakpoint :: "u32 \<Rightarrow> bool dbg" where
  "remove_sw_breakpoint addr =
     bindM (getM (\<lambda>d. addr \<in> breakpoints d)) (\<lambda>b.
     bindM (modM (\<lambda>d. d\<lparr>breakpoints := breakpoints d - {addr}\<rparr>)) (\<lambda>_.
     ret b))"

definition get_watchpoints :: "Debugger \<Rightarrow> (u32 \<times> u32 \<times> WatchKind) list" where
  "get_watchpoints d = hw_watchpoints (mem (simulator d))"

definition set_watchpoints :: "(u32 \<times> u32 \<times> WatchKind) list \<Rightarrow> Debugger \<Rightarrow> Debugger" where
  "set_watchpoints wps d =
     d\<lparr>simulator := (simulator d)\<lparr>mem := (mem (simulator d))\<lparr>hw_watchpoints := wps\<rparr>\<rparr>\<rparr>"

definition add_hw_watchpoint :: "u32 \<Rightarrow> u32 \<Rightarrow> WatchKind \<Rightarrow> bool dbg" where
  "add_hw_watchpoint addr len kind =
     bindM (getM get_watchpoints) (\<lambda>wps.
     if (addr, len, kind) \<in> set wps then ret False
     else bindM (modM (set_watchpoints (wps @ [(addr, len, kind)]))) (\<lambda>_. ret True))"

text \<open>\<open>position\<close> and \<open>Vec::remove\<close>: the first entry that is equal goes.\<close>

definition remove_hw_watchpoint :: "u32 \<Rightarrow> u32 \<Rightarrow> WatchKind \<Rightarrow> bool dbg" where
  "remove_hw_watchpoint addr len kind =
     bindM (getM get_watchpoints) (\<lambda>wps.
     if (addr, len, kind) \<notin> set wps then ret False
     else bindM (modM (set_watchpoints (remove1 (addr, len, kind) wps))) (\<lambda>_. ret True))"

section \<open>Resuming\<close>

definition set_exec_mode :: "ExecMode \<Rightarrow> unit dbg" where
  "set_exec_mode mode = modM (\<lambda>d. d\<lparr>exec_mode := mode\<rparr>)"

text \<open>A signal is a number of the protocol; none is supported.\<close>

definition resume :: "u8 option \<Rightarrow> unit dbg" where
  "resume signal =
     (if signal \<noteq> None then throw (TargetErr ''no support for continuing with signal'')
      else set_exec_mode Continue)"

definition single_step :: "u8 option \<Rightarrow> unit dbg" where
  "single_step signal =
     (if signal \<noteq> None then throw (TargetErr ''no support for stepping with signal'')
      else set_exec_mode Step)"

definition resume_range_step :: "u32 \<Rightarrow> u32 \<Rightarrow> unit dbg" where
  "resume_range_step start end_addr = set_exec_mode (RangeStep start end_addr)"

section \<open>The program's file\<close>

text \<open>The length copied and the buffer afterwards.\<close>

definition copy_to_buf :: "u8 list \<Rightarrow> u8 list \<Rightarrow> nat \<times> u8 list" where
  "copy_to_buf data buf =
     (let len = min (length buf) (length data) in (len, take len data @ drop len buf))"

text \<open>\<open>offset + length\<close> is an addition of 64-bit integers.\<close>

definition copy_range_to_buf :: "u8 list \<Rightarrow> u64 \<Rightarrow> u64 \<Rightarrow> u8 list \<Rightarrow> (nat \<times> u8 list) dbg" where
  "copy_range_to_buf data offset len buf =
     (if unat offset > length data then ret (0, buf)
      else if unat offset + unat len \<ge> 2 ^ 64 then panicM ArithOverflow
      else
        (let end_pos = min (unat offset + unat len) (length data) in
         ret (copy_to_buf (take (end_pos - unat offset) (drop (unat offset) data)) buf)))"

definition exec_file_name :: "u8 list" where
  "exec_file_name = ascii ''/r0code.elf''"

definition get_exec_file :: "u64 \<Rightarrow> u64 \<Rightarrow> u8 list \<Rightarrow> (nat \<times> u8 list) dbg" where
  "get_exec_file offset len buf = copy_range_to_buf exec_file_name offset len buf"

definition host_open :: "u8 list \<Rightarrow> u32 dbg" where
  "host_open filename = (if filename = exec_file_name then ret 0 else throw ENOENT)"

definition host_close :: "u32 \<Rightarrow> unit dbg" where
  "host_close fd = ret ()"

definition pread :: "u32 \<Rightarrow> u64 \<Rightarrow> u64 \<Rightarrow> u8 list \<Rightarrow> (nat \<times> u8 list) dbg" where
  "pread fd count offset buf =
     (if fd = 0 then bindM (getM elf) (\<lambda>data. copy_range_to_buf data offset count buf)
      else throw EBADF)"

record HostIoStat =
  st_dev :: nat
  st_ino :: nat
  st_mode :: nat
  st_nlink :: nat
  st_uid :: nat
  st_gid :: nat
  st_rdev :: nat
  st_size :: nat
  st_blksize :: nat
  st_blocks :: nat
  st_atime :: nat
  st_mtime :: nat
  st_ctime :: nat

definition fstat :: "u32 \<Rightarrow> HostIoStat dbg" where
  "fstat fd =
     (if fd = 0 then
        getM (\<lambda>d. \<lparr>st_dev = 0, st_ino = 0, st_mode = 0, st_nlink = 0, st_uid = 0, st_gid = 0,
          st_rdev = 0, st_size = length (elf d), st_blksize = 0, st_blocks = 0, st_atime = 0,
          st_mtime = 0, st_ctime = 0\<rparr>)
      else throw EBADF)"

definition setfs :: "unit dbg" where
  "setfs = ret ()"

definition readlink :: "u8 list \<Rightarrow> u8 list \<Rightarrow> (nat \<times> u8 list) dbg" where
  "readlink filename buf =
     (if filename = ascii ''/proc/1/exe'' then ret (copy_to_buf exec_file_name buf)
      else if filename = ascii ''/proc/1/cwd'' then ret (copy_to_buf (ascii ''/'') buf)
      else throw ENOENT)"

section \<open>The monitor command\<close>

text \<open>What the command prints: one of two messages, or one or four numbers.\<close>

datatype monitor_output =
    NotUtf8
  | Usage
  | CycleCount nat
  | Verbose nat nat nat nat

definition handle_monitor_cmd :: "u8 list \<Rightarrow> monitor_output dbg" where
  "handle_monitor_cmd cmd d =
     (if \<not> valid_utf8 cmd then (Ok NotUtf8, d)
      else
        (case session_cycle_callback (mem (simulator d)) of
           None \<Rightarrow> (Panic UnwrapFailed, d)
         | Some c \<Rightarrow>
             (if cmd \<noteq> [] \<and> hd cmd = of_char CHR ''v'' then
                (Ok (Verbose (num_segment c)
                       (cur_segment_cycle c + PRE_CYCLE + POST_CYCLE + OTHER_CONST_CYCLE)
                       (card (cur_segment_resident c)) (card (cur_segment_dirty c))), d)
              else if cmd \<noteq> [] \<and> hd cmd = of_char CHR ''c'' then (Ok (CycleCount (get_session_cycle c)), d)
              else (Ok Usage, d))))"

section \<open>The invariant\<close>

definition dbg_wf :: "Debugger \<Rightarrow> bool" where
  "dbg_wf d \<longleftrightarrow> sim_wf (simulator d)"

lemma dbg_wf_simps [simp]:
  "dbg_wf (d\<lparr>breakpoints := b\<rparr>) = dbg_wf d" "dbg_wf (d\<lparr>exec_mode := e\<rparr>) = dbg_wf d"
  "dbg_wf (set_watchpoints wps d) = dbg_wf d"
  by (simp_all add: dbg_wf_def set_watchpoints_def sim_wf_def mem_wf_def)

lemma preserves_on_mem [intro]:
  assumes "\<And>m. same_frame m (snd (f m))"
  shows "preserves dbg_wf (on_mem f)"
  using assms by (auto simp: preserves_def on_mem_def dbg_wf_def intro: sim_wf_frame split: prod.split) (metis sim_wf_frame snd_conv)

lemma preserves_set_hart:
  "(\<And>h. length (registers h) = 32 \<Longrightarrow> length (registers (f h)) = 32) \<Longrightarrow> preserves dbg_wf (modM (set_hart f))"
  by (auto simp: preserves_def modM_def set_hart_def dbg_wf_def sim_wf_def)

lemma preserves_accesses [simp, intro]:
  "preserves dbg_wf (on_mem (read_mem_with_privileges a sz pr))"
  "preserves dbg_wf (on_mem (write_mem_with_privileges a sz v pr))"
  using read_mem_frame write_mem_frame by blast+

lemma preserves_read_addrs_loop: "preserves dbg_wf (read_addrs_loop a e data)"
  by (induction a e data rule: read_addrs_loop.induct) (auto intro!: preserves_bindM)

lemma preserves_write_addrs: "preserves dbg_wf (write_addrs a data)"
proof (induction data arbitrary: a)
  case Nil
  show ?case by (subst write_addrs.simps) simp
next
  case (Cons b data)
  then show ?case by (subst write_addrs.simps) (auto intro!: preserves_bindM)
qed

lemma preserves_copy_range [simp, intro]: "preserves I (copy_range_to_buf data off len buf)"
  by (simp add: copy_range_to_buf_def Let_def)

lemma preserves_copy_slice [simp, intro]: "preserves I (copy_from_slice a b)"
  by (simp add: copy_from_slice_def)

lemma preserves_register_operations [simp]:
  "preserves dbg_wf read_registers" "preserves dbg_wf (read_register reg_id buf)"
  "preserves dbg_wf (write_register reg_id val)"
  "length (fst regs) = 32 \<Longrightarrow> preserves dbg_wf (write_registers regs)"
  by (auto simp: read_registers_def write_registers_def read_register_def write_register_def
      intro!: preserves_bindM preserves_set_hart split: RiscvRegId.split)

lemma preserves_memory_operations [simp]:
  "preserves dbg_wf (read_addrs addr data)" "preserves dbg_wf (write_addrs addr data)"
  using preserves_write_addrs
  by (auto simp: read_addrs_def Let_def preserves_read_addrs_loop intro!: preserves_bindM)

lemma preserves_control_operations [simp]:
  "preserves dbg_wf (add_sw_breakpoint addr)" "preserves dbg_wf (remove_sw_breakpoint addr)"
  "preserves dbg_wf (add_hw_watchpoint addr len kind)" "preserves dbg_wf (remove_hw_watchpoint addr len kind)"
  "preserves dbg_wf (resume sig)" "preserves dbg_wf (single_step sig)" "preserves dbg_wf (resume_range_step addr addr')"
  by (auto simp: add_sw_breakpoint_def remove_sw_breakpoint_def add_hw_watchpoint_def
      remove_hw_watchpoint_def resume_def single_step_def resume_range_step_def set_exec_mode_def
      intro!: preserves_bindM preserves_modM)

lemma preserves_host_operations [simp]:
  "preserves dbg_wf (get_exec_file off len buf)" "preserves dbg_wf (host_open name)"
  "preserves dbg_wf (host_close fd)" "preserves dbg_wf (pread fd count off buf)" "preserves dbg_wf (fstat fd)"
  "preserves dbg_wf setfs" "preserves dbg_wf (readlink name buf)"
  by (auto simp: get_exec_file_def host_open_def host_close_def pread_def fstat_def setfs_def readlink_def
      intro!: preserves_bindM)

lemma preserves_monitor [simp]: "preserves dbg_wf (handle_monitor_cmd cmd)"
  by (auto simp: preserves_def handle_monitor_cmd_def split: option.split)

text \<open>
  Remark. No operation the debugging client can ask for breaks the invariant of the
  simulator, whether it succeeds or not; a register file that is written has 32 registers.
\<close>

theorem debugger_operations_keep_invariant:
  assumes "dbg_wf d" and "length (fst regs) = 32"
  shows "dbg_wf (snd (write_registers regs d)) \<and> dbg_wf (snd (write_register reg_id val d)) \<and>
    dbg_wf (snd (read_addrs addr data d)) \<and> dbg_wf (snd (write_addrs addr data d)) \<and>
    dbg_wf (snd (add_sw_breakpoint addr d)) \<and> dbg_wf (snd (remove_sw_breakpoint addr d)) \<and>
    dbg_wf (snd (add_hw_watchpoint addr len kind d)) \<and> dbg_wf (snd (remove_hw_watchpoint addr len kind d)) \<and>
    dbg_wf (snd (resume sig d)) \<and> dbg_wf (snd (single_step sig d)) \<and> dbg_wf (snd (resume_range_step addr addr' d))"
  using preserves_register_operations preserves_memory_operations preserves_control_operations assms
  by (simp add: preserves_def)

section \<open>Reading and writing memory\<close>

definition dbg_bytes :: "Debugger \<Rightarrow> u32 \<Rightarrow> u8" where
  "dbg_bytes d = byte_at (mem (simulator d))"

definition set_mem :: "Memory \<Rightarrow> Debugger \<Rightarrow> Debugger" where
  "set_mem m d = d\<lparr>simulator := (simulator d)\<lparr>mem := m\<rparr>\<rparr>"

lemma set_mem_simps [simp]:
  "mem (simulator (set_mem m d)) = m" "set_mem m' (set_mem m d) = set_mem m' d"
  "set_mem (mem (simulator d)) d = d"
  by (simp_all add: set_mem_def)

lemma on_mem_Ok: "f (mem (simulator d)) = (Ok x, m) \<Longrightarrow> on_mem f d = (Ok x, set_mem m d)"
  by (simp add: on_mem_def set_mem_def)

lemma read_addrs_loop_ok:
  assumes "mem_wf (mem (simulator d))" and "GUEST_MIN_MEM \<le> unat a" and "unat a \<le> unat e"
    and "unat e \<le> GUEST_MAX_MEM" and "n = min (length data) (unat e - unat a)"
  shows "\<exists>m. read_addrs_loop a e data d = (Ok (load (dbg_bytes d) a n @ drop n data), set_mem m d) \<and>
     byte_at m = dbg_bytes d \<and> mem_wf m"
  using assms
proof (induction data arbitrary: a n d)
  case Nil
  then show ?case by (intro exI [of _ "mem (simulator d)"]) (simp add: ret_def dbg_bytes_def)
next
  case (Cons v data)
  show ?case
  proof (cases "a < e")
    case True
    then have lt: "unat a < unat e" by (simp add: word_less_nat_alt)
    have u: "unat (a + 1) = unat a + 1"
      using lt Cons.prems(4) by (simp add: unat_add32 cfg_simps)
    have "in_range a" using Cons.prems lt by (simp add: in_range_def out_of_range_def)
    then obtain m1 where 1: "read_mem_with_privileges a Byte True (mem (simulator d)) =
        (Ok (Some (ucast (dbg_bytes d a))), m1)" "mem_wf m1" "byte_at m1 = dbg_bytes d"
      using debug_store.rd_mapped [OF Cons.prems(1)] by (auto simp: dbg_bytes_def)
    let ?d = "set_mem m1 d" and ?k = "min (length data) (unat e - unat (a + 1))"
    have b: "dbg_bytes ?d = dbg_bytes d" using 1(3) by (simp add: dbg_bytes_def)
    have "mem_wf (mem (simulator ?d))" "GUEST_MIN_MEM \<le> unat (a + 1)" "unat (a + 1) \<le> unat e"
      using 1(2) Cons.prems lt u by auto
    from Cons.IH [OF this Cons.prems(4) refl] obtain m2 where
      2: "read_addrs_loop (a + 1) e data ?d = (Ok (load (dbg_bytes d) (a + 1) ?k @ drop ?k data), set_mem m2 d)"
        "byte_at m2 = dbg_bytes d" "mem_wf m2" unfolding b by auto
    have n: "n = Suc ?k" using Cons.prems(5) lt u by auto
    have "read_addrs_loop a e (v # data) d =
        (Ok (load (dbg_bytes d) a n @ drop n (v # data)), set_mem m2 d)"
      using True 2(1) by (simp add: bindM_def on_mem_Ok [where f = "read_mem_with_privileges a Byte True", OF 1(1)] ok_or_def ret_def n load_Suc)
    with 2(2,3) show ?thesis by blast
  next
    case False
    then have "n = 0" using Cons.prems(5) by (simp add: word_less_nat_alt)
    with False Cons.prems(1) show ?thesis
      by (intro exI [of _ "mem (simulator d)"]) (simp add: ret_def dbg_bytes_def)
  qed
qed

lemma read_addrs_ok:
  assumes "mem_wf (mem (simulator d))" and "GUEST_MIN_MEM \<le> unat a" and "unat a < GUEST_MAX_MEM"
    and "unat a + length data < 2 ^ 32" and "n = min (length data) (GUEST_MAX_MEM - unat a)"
  shows "\<exists>d'. read_addrs a data d = (Ok (n, load (dbg_bytes d) a n @ drop n data), d') \<and>
     dbg_bytes d' = dbg_bytes d"
proof -
  let ?e = "min (a + of_nat (length data)) (of_nat GUEST_MAX_MEM) :: u32"
  have len: "unat (of_nat (length data) :: u32) = length data" using assms(4) by simp
  have t: "unat (a + of_nat (length data)) = unat a + length data"
    using assms(4) len by (simp add: unat_add32)
  have mx: "unat (of_nat GUEST_MAX_MEM :: u32) = GUEST_MAX_MEM" by (simp add: cfg_simps)
  have e: "unat ?e = min (unat a + length data) GUEST_MAX_MEM"
    using t mx by (simp add: min_def word_le_nat_alt)
  have ge: "unat a \<le> unat ?e" "unat ?e \<le> GUEST_MAX_MEM" using e assms(3) by auto
  have n: "n = min (length data) (unat ?e - unat a)" "unat (?e - a) = n"
    using e assms(3,5) ge by (auto simp: unat_sub word_le_nat_alt)
  from read_addrs_loop_ok [OF assms(1,2) ge n(1)] obtain m where
    m: "read_addrs_loop a ?e data d = (Ok (load (dbg_bytes d) a n @ drop n data), set_mem m d)"
      "byte_at m = dbg_bytes d" by blast
  have "read_addrs a data d = (Ok (n, load (dbg_bytes d) a n @ drop n data), set_mem m d)"
    using assms(2-4) n(2) m(1) len
    by (simp add: read_addrs_def bindM_run Let_def bindM_def [of "read_addrs_loop x y z" for x y z] ret_def)
  with m(2) show ?thesis by (auto simp: dbg_bytes_def)
qed

text \<open>
  Property C23. The client reads the bytes of the guest's memory, up to the end of it: the number of
  bytes read, the buffer with these bytes at its beginning. Reading changes no byte.
\<close>

theorem read_addrs_reads_memory:
  assumes "mem_wf (mem (simulator d))" and "GUEST_MIN_MEM \<le> unat a" and "unat a < GUEST_MAX_MEM"
    and "unat a + length data < 2 ^ 32" and "n = min (length data) (GUEST_MAX_MEM - unat a)"
  shows "\<exists>d'. read_addrs a data d = (Ok (n, load (dbg_bytes d) a n @ drop n data), d') \<and>
     dbg_bytes d' = dbg_bytes d"
  using assms by (rule read_addrs_ok)

lemma unat_max32: "unat (- 1 :: u32) = 4294967295"
  by (simp add: unsigned_minus_1_eq_mask mask_eq_exp_minus_1)

lemma write_addrs_ok:
  assumes "mem_wf (mem (simulator d))" and "guest_range a (length data)" and "a \<noteq> - 1"
  shows "\<exists>m. write_addrs a data d = (Ok (), set_mem m d) \<and> byte_at m = overlay (dbg_bytes d) a data \<and> mem_wf m"
  using assms
proof (induction data arbitrary: a d)
  case Nil
  then show ?case
    by (subst write_addrs.simps) (intro exI [of _ "mem (simulator d)"], simp add: ret_def dbg_bytes_def)
next
  case (Cons v data)
  have lt: "unat a + 1 < 2 ^ 32" using Cons.prems(2) by (simp add: guest_range_def cfg_simps)
  then have u: "unat (a + 1) = unat a + 1" by (simp add: unat_add32)
  have "in_range a" using guest_range_mapped(2) [OF Cons.prems(2), of 0] by simp
  then obtain m1 where 1: "write_mem_with_privileges a Byte (ucast v) True (mem (simulator d)) = (Ok True, m1)"
    "mem_wf m1" "byte_at m1 = (dbg_bytes d)(a := v)"
    using debug_store.wr_mapped [OF Cons.prems(1), of a "ucast v"] by (auto simp: dbg_bytes_def)
  have "guest_range (a + 1) (length data)" "a + 1 \<noteq> - 1"
    using Cons.prems(2) u unat_max32 by (auto simp: guest_range_def cfg_simps word_unat_eq_iff)
  then obtain m2 where 2: "write_addrs (a + 1) data (set_mem m1 d) = (Ok (), set_mem m2 d)"
    "byte_at m2 = overlay (byte_at m1) (a + 1) data" "mem_wf m2"
    using Cons.IH [of "set_mem m1 d" "a + 1"] 1(2) by (auto simp: dbg_bytes_def)
  have "length data < 4294967296" using Cons.prems(2) by (simp add: guest_range_def cfg_simps)
  then have "byte_at m2 = overlay (dbg_bytes d) a (v # data)"
    unfolding 2(2) 1(3) by (rule overlay_Cons [symmetric])
  moreover have "write_addrs a (v # data) d = (Ok (), set_mem m2 d)"
    using Cons.prems(3) 2(1) by (subst write_addrs.simps) (simp add: bindM_def on_mem_Ok [where f = "write_mem_with_privileges a Byte (ucast v) True", OF 1(1)])
  ultimately show ?case using 2(3) by blast
qed


lemma guest_range_not_last: "guest_range a n \<Longrightarrow> a \<noteq> - 1"
  using unat_max32 by (auto simp: guest_range_def cfg_simps)

text \<open>
  Property C22. What the client writes it reads back, and no other byte changes.
\<close>

theorem debugger_memory_roundtrip:
  assumes "mem_wf (mem (simulator d))" and "guest_range a (length data)"
    and "unat a + length data \<le> GUEST_MAX_MEM" and "length buf = length data" and "data \<noteq> []"
  shows "\<exists>d1 d2. write_addrs a data d = (Ok (), d1) \<and> dbg_bytes d1 = overlay (dbg_bytes d) a data \<and>
     read_addrs a buf d1 = (Ok (length data, data), d2)"
proof -
  obtain m where w: "write_addrs a data d = (Ok (), set_mem m d)"
    "byte_at m = overlay (dbg_bytes d) a data" "mem_wf m"
    using write_addrs_ok [OF assms(1,2) guest_range_not_last [OF assms(2)]] by blast
  have "unat a < unat a + length data" using assms(5) by simp
  then have "unat a < GUEST_MAX_MEM" using assms(3) by (rule less_le_trans)
  with assms(2-4) have a: "GUEST_MIN_MEM \<le> unat a" "unat a < GUEST_MAX_MEM" "unat a + length buf < 2 ^ 32"
    by (auto simp: guest_range_def cfg_simps)
  let ?d = "set_mem m d"
  have "mem_wf (mem (simulator ?d))" using w(3) by simp
  moreover have "length data = min (length buf) (GUEST_MAX_MEM - unat a)" using assms(3,4) by linarith
  ultimately obtain d2 where
    "read_addrs a buf ?d = (Ok (length data, load (dbg_bytes ?d) a (length data) @ drop (length data) buf), d2)"
    using read_addrs_ok [OF _ a] by blast
  moreover have "load (overlay (dbg_bytes d) a data) a (length data) = data"
    using assms(3) by (intro load_overlay) (simp add: cfg_simps)
  moreover have "dbg_bytes ?d = overlay (dbg_bytes d) a data" using w(2) by (simp add: dbg_bytes_def)
  ultimately have "read_addrs a buf ?d = (Ok (length data, data), d2)" using assms(4) by simp
  with w(1) \<open>dbg_bytes ?d = overlay (dbg_bytes d) a data\<close> show ?thesis by blast
qed

text \<open>
  Remark (a flaw). The two directions disagree on where the memory ends: the byte at its upper
  limit can be written by the client, and by the program, but the client cannot read it.
\<close>

theorem last_byte_write_only:
  assumes "mem_wf (mem (simulator d))"
  shows "\<exists>d'. write_addrs (of_nat GUEST_MAX_MEM) [v] d = (Ok (), d') \<and>
     dbg_bytes d' (of_nat GUEST_MAX_MEM) = v \<and>
     read_addrs (of_nat GUEST_MAX_MEM) [v] d' = (Err NonFatal, d')"
proof -
  let ?a = "of_nat GUEST_MAX_MEM :: u32"
  have "guest_range ?a (length [v])" by (simp add: guest_range_def cfg_simps)
  from write_addrs_ok [OF assms this guest_range_not_last [OF this]] obtain m where
    "write_addrs ?a [v] d = (Ok (), set_mem m d)" "byte_at m = overlay (dbg_bytes d) ?a [v]" by blast
  then show ?thesis
    by (auto simp: dbg_bytes_def overlay_def read_addrs_def throw_def cfg_simps)
qed

lemma write_addrs_past_end:
  assumes "mem_wf (mem (simulator d))" and "GUEST_MIN_MEM \<le> unat a"
    and "unat a + length data = GUEST_MAX_MEM + 1" and "rest \<noteq> []"
  shows "\<exists>m. write_addrs a (data @ rest) d = (Err NonFatal, set_mem m d) \<and>
     byte_at m = overlay (dbg_bytes d) a data"
  using assms
proof (induction data arbitrary: a d)
  case Nil
  then have "a \<noteq> - 1" "\<not> in_range a" using unat_max32 by (auto simp: in_range_def out_of_range_def cfg_simps)
  then have "on_mem (write_mem_with_privileges a Byte v True) d = (Ok False, d)" for v
    using debug_store.wr_unmapped [of a v "mem (simulator d)"] by (simp add: on_mem_def)
  with \<open>a \<noteq> - 1\<close> Nil.prems(4) show ?case
    by (subst write_addrs.simps)
      (auto simp: bindM_def throw_def dbg_bytes_def split: list.split intro!: exI [of _ "mem (simulator d)"])
next
  case (Cons v data)
  have lt: "unat a + 1 < 2 ^ 32" using Cons.prems(3) by (simp add: cfg_simps)
  then have u: "unat (a + 1) = unat a + 1" by (simp add: unat_add32)
  have rng: "in_range a" "a \<noteq> - 1"
    using Cons.prems unat_max32 by (auto simp: in_range_def out_of_range_def cfg_simps)
  then obtain m1 where 1: "write_mem_with_privileges a Byte (ucast v) True (mem (simulator d)) = (Ok True, m1)"
    "mem_wf m1" "byte_at m1 = (dbg_bytes d)(a := v)"
    using debug_store.wr_mapped [OF Cons.prems(1), of a "ucast v"] by (auto simp: dbg_bytes_def)
  from Cons.IH [of "set_mem m1 d" "a + 1"] Cons.prems u 1(2) obtain m2 where
    2: "write_addrs (a + 1) (data @ rest) (set_mem m1 d) = (Err NonFatal, set_mem m2 d)"
    "byte_at m2 = overlay (byte_at m1) (a + 1) data" by (auto simp: dbg_bytes_def)
  have "length data < 4294967296" using Cons.prems(3) by (simp add: cfg_simps)
  then have "byte_at m2 = overlay (dbg_bytes d) a (v # data)"
    unfolding 2(2) 1(3) by (rule overlay_Cons [symmetric])
  moreover have "write_addrs a ((v # data) @ rest) d = (Err NonFatal, set_mem m2 d)"
    using rng 2(1) by (subst write_addrs.simps)
      (simp add: bindM_def on_mem_Ok [where f = "write_mem_with_privileges a Byte (ucast v) True", OF 1(1)])
  ultimately show ?case by blast
qed

text \<open>
  Property C36. A write that runs past the end of the memory is refused, but the bytes before the
  end have been written.
\<close>

theorem refused_write_is_partial:
  assumes "mem_wf (mem (simulator d))" and "GUEST_MIN_MEM \<le> unat a"
    and "unat a + length data = GUEST_MAX_MEM + 1" and "rest \<noteq> []"
  shows "\<exists>d'. write_addrs a (data @ rest) d = (Err NonFatal, d') \<and>
     dbg_bytes d' = overlay (dbg_bytes d) a data"
  using write_addrs_past_end [OF assms] by (auto simp: dbg_bytes_def)

section \<open>Registers\<close>

text \<open>
  Remark. A register or the program counter that is written with the four bytes of a word holds
  that word, is read back as these bytes, and the other registers keep their values.
\<close>

theorem register_roundtrip:
  assumes "dbg_wf d" and "length val = 4" and "length buf = 4"
    and "reg_id = Pc \<or> reg_id = Gpr idx \<and> unat idx < 32"
  shows "\<exists>d'. write_register reg_id val d = (Ok (), d') \<and>
     read_register reg_id buf d' = (Ok (4, val), d') \<and>
     read_registers d' = (case reg_id of
         Pc \<Rightarrow> (Ok (registers (hart_state (simulator d)), le_word val), d')
       | _ \<Rightarrow> (Ok ((registers (hart_state (simulator d)))[unat idx := le_word val], pc (hart_state (simulator d))), d'))"
proof -
  have len: "length (registers (hart_state (simulator d))) = 32" using assms(1) by (simp add: dbg_wf_def sim_wf_def)
  have val: "take 4 val = val" "to_le_bytes (le_word val) = val" using assms(2) by (simp_all add: to_le_bytes_le_word)
  from assms(4) show ?thesis
    using len val assms(2,3)
    by (auto simp: write_register_def read_register_def read_registers_def copy_from_slice_def bindM_run
        modM_def getM_def ret_def set_hart_def)
qed

section \<open>Breakpoints and watchpoints\<close>

text \<open>
  Property C35. The client's watchpoints behave as a set: registering answers whether the entry is
  new, removing whether it was there, and no entry is ever held twice.
\<close>

theorem watchpoints_behave_as_set:
  assumes "distinct (get_watchpoints d)"
  shows "(\<exists>d'. add_hw_watchpoint a l k d = (Ok ((a, l, k) \<notin> set (get_watchpoints d)), d') \<and>
            set (get_watchpoints d') = insert (a, l, k) (set (get_watchpoints d)) \<and>
            distinct (get_watchpoints d')) \<and>
         (\<exists>d'. remove_hw_watchpoint a l k d = (Ok ((a, l, k) \<in> set (get_watchpoints d)), d') \<and>
            set (get_watchpoints d') = set (get_watchpoints d) - {(a, l, k)} \<and>
            distinct (get_watchpoints d'))"
  using assms
  by (auto simp: add_hw_watchpoint_def remove_hw_watchpoint_def bindM_run ret_def get_watchpoints_def
      set_watchpoints_def)

lemma check_entries_wraps:
  assumes "2 ^ 32 \<le> unat ws + unat wl" and "kind \<noteq> (if w then WatchRead else WatchWrite)"
    and "check_entries wps addr len w = Inr None"
  shows "check_entries (wps @ [(ws, wl, kind)]) addr len w = Inl ArithOverflow"
  using assms(3)
proof (induction wps)
  case (Cons e wps)
  then show ?case by (cases e) (auto split: if_splits option.splits)
qed (use assms(1,2) in \<open>auto simp: checked_add32_def split: if_splits\<close>)


section \<open>The file\<close>

lemma copy_range_spec:
  assumes "unat off + unat len < 2 ^ 64"
  shows "copy_range_to_buf data off len buf d =
     (let n = min (length buf) (min (unat len) (length data - unat off))
      in (Ok (n, take n (drop (unat off) data) @ drop n buf), d))"
proof (cases "unat off > length data")
  case False
  let ?xs = "drop (unat off) data" and ?l = "unat len"
  have "take (min (unat off + ?l) (length data) - unat off) ?xs = take ?l ?xs"
    using False by (cases "unat off + ?l \<le> length data") simp_all
  then have "copy_range_to_buf data off len buf d = (Ok (copy_to_buf (take ?l ?xs) buf), d)"
    using False assms by (simp add: copy_range_to_buf_def ret_def)
  moreover have "copy_to_buf (take ?l ?xs) buf =
      (min (length buf) (min ?l (length data - unat off)),
       take (min (length buf) (min ?l (length data - unat off))) ?xs @
       drop (min (length buf) (min ?l (length data - unat off))) buf)"
    by (simp add: copy_to_buf_def Let_def min.commute min.left_commute)
  ultimately show ?thesis by (simp only: Let_def)
qed (simp add: copy_range_to_buf_def ret_def Let_def)

text \<open>
  Remark. A read of the program's file delivers the bytes from the offset on, as many as are
  asked for, fit into the buffer and exist; in particular nothing only from its end on.
\<close>

theorem pread_delivers:
  assumes "unat off + unat count < 2 ^ 64"
    and "n = min (length buf) (min (unat count) (length (elf d) - unat off))"
  shows "pread 0 count off buf d = (Ok (n, take n (drop (unat off) (elf d)) @ drop n buf), d)"
  using copy_range_spec [OF assms(1), of "elf d" buf d] assms(2)
  by (simp add: pread_def bindM_run Let_def)

text \<open>
  Remark (a divergence from its documentation, which promises 0 when the offset is not below
  the length of the buffer). The offset is compared with the length of the data: a buffer of one
  byte is filled from an offset beyond it.
\<close>

theorem copy_range_offset_beyond_buffer:
  assumes "Suc k < length data" and "k < 2 ^ 32"
  shows "copy_range_to_buf data (of_nat (Suc k)) 1 [v] d = (Ok (1, [data ! Suc k]), d)"
proof -
  have u: "unat (of_nat (Suc k) :: u64) = Suc k" using assms(2) by (simp add: unat_of_nat del: of_nat_Suc)
  have "unat (of_nat (Suc k) :: u64) + unat (1 :: u64) < 2 ^ 64" unfolding u using assms(2) by simp
  from copy_range_spec [OF this, of data "[v]" d] show ?thesis
    unfolding u using assms(1) by (simp add: Let_def take_Suc hd_drop_conv_nth min_def)
qed

end
