(* ===== verification/Ecall.thy ===== *)
theory Ecall
  imports Syscall
begin

text \<open>
  The environment calls and the step function of \<open>src/vm/simulator.rs\<close>: one definition per
  ecall, the dispatch, and \<open>step\<close>, which fetches, charges, executes and reports.
\<close>

section \<open>The environment calls\<close>

text \<open>
  An ecall returns the next program counter, an exit code, and the extra cycles it costs.
\<close>

type_synonym ecall_result = "u32 \<times> ExitCode option \<times> nat"

definition next_pc :: "ExitCode option \<Rightarrow> nat \<Rightarrow> (Simulator, vm_error, ecall_result) M" where
  "next_pc exit extra =
     bindM (getM (\<lambda>s. pc (hart_state s))) (\<lambda>p.
     bindM (add32 p 4) (\<lambda>p'.
     ret (p', exit, extra)))"

definition ecall_halt :: "(Simulator, vm_error, ecall_result) M" where
  "ecall_halt =
     bindM (getM (reg REG_A0)) (\<lambda>tot_reg.
     bindM (getM (\<lambda>s. pc (hart_state s))) (\<lambda>p.
     let halt_type = tot_reg AND 0xff; user_exit = drop_bit 8 tot_reg AND 0xff in
     if halt_type = HALT_TERMINATE then ret (p, Some (Halted user_exit), 0)
     else if halt_type = HALT_PAUSE then ret (p, Some (Paused user_exit), 0)
     else throw (IllegalHaltType halt_type)))"

definition ecall_input :: "(Simulator, vm_error, ecall_result) M" where
  "ecall_input = next_pc None 0"

text \<open>\<open>align_up\<close> on \<open>usize\<close>, here 64 bits.\<close>

definition align_up :: "u64 \<Rightarrow> u64 \<Rightarrow> u64" where
  "align_up addr align = (addr + align - 1) AND NOT (align - 1)"

text \<open>The loop that reads the name of the system call, up to its terminating zero.\<close>

function read_name :: "u32 \<Rightarrow> u8 list \<Rightarrow> Memory \<Rightarrow> (vm_error, u8 list) outcome \<times> Memory" where
  "read_name addr s m =
     (case read_mem addr Byte m of
        (Ok None, m') \<Rightarrow> (Err NamePtrUnreadable, m')
      | (Ok (Some v), m') \<Rightarrow>
          if (ucast v :: u8) = 0 then (Ok s, m')
          else (case checked_add32 addr 1 of
                  None \<Rightarrow> (Panic ArithOverflow, m')
                | Some addr' \<Rightarrow> read_name addr' (s @ [ucast v]) m')
      | (Err e, m') \<Rightarrow> (Err e, m')
      | (Panic p, m') \<Rightarrow> (Panic p, m')
      | (Hang, m') \<Rightarrow> (Hang, m'))"
  by pat_completeness auto
termination
  by (relation "measure (\<lambda>(addr, _, _). 4294967296 - unat addr)")
    (auto simp: checked_add32_Some unat_add32 split: if_splits)

declare read_name.simps [simp del]

definition ecall_software :: "externs \<Rightarrow> (Simulator, vm_error, ecall_result) M" where
  "ecall_software ext =
     bindM (getM (reg REG_A0)) (\<lambda>to_guest_ptr.
     bindM (getM (\<lambda>s. pc (hart_state s))) (\<lambda>p.
     if out_of_range to_guest_ptr \<and> to_guest_ptr \<noteq> 0 then throw (InvalidToGuestPtr to_guest_ptr p)
     else
       bindM (getM (reg REG_A1)) (\<lambda>to_guest_words.
       bindM (getM (reg REG_A2)) (\<lambda>name_ptr.
       let chunks = unat (align_up (ucast to_guest_words) 4) in
       bindM (lift_mem (read_name name_ptr [])) (\<lambda>name_bytes.
       bindM (from_utf8 name_bytes) (\<lambda>syscall_name.
       bindM (handle_syscall ext syscall_name (replicate (unat to_guest_words) 0)) (\<lambda>(to_guest, exit_code).
       if exit_code \<noteq> None then
         bindM (getM (\<lambda>s. pc (hart_state s))) (\<lambda>p. ret (p, None, 1 + chunks + 1))
       else
         bindM (if to_guest_ptr \<noteq> 0
                then lift_mem (write_loop (\<lambda>a v. write_mem a Byte v) CannotWriteFinalHash
                       to_guest_ptr 0 (words_to_bytes to_guest))
                else ret ()) (\<lambda>_.
         next_pc None (1 + chunks + 1)))))))))"

text \<open>The words of a block, read at \<open>ptr + 4 * i\<close> for \<open>i\<close> from the given index on.\<close>

primrec read_words :: "vm_error \<Rightarrow> u32 \<Rightarrow> nat \<Rightarrow> nat \<Rightarrow> (Memory, vm_error, u32 list) M" where
  "read_words e ptr i 0 = ret []"
| "read_words e ptr i (Suc n) =
     bindM (add32 ptr (of_nat (i * 4))) (\<lambda>a.
     bindM (read_mem a Word) (\<lambda>r.
     bindM (ok_or e r) (\<lambda>w.
     bindM (read_words e ptr (Suc i) n) (\<lambda>ws.
     ret (w # ws)))))"

text \<open>The loop over the \<open>count\<close> blocks of the \<open>SHA\<close> ecall.\<close>

primrec sha_blocks ::
    "externs \<Rightarrow> nat \<Rightarrow> u32 \<Rightarrow> u32 \<Rightarrow> u32 list \<Rightarrow> (Memory, vm_error, u32 list) M" where
  "sha_blocks ext 0 block1_ptr block2_ptr state = ret state"
| "sha_blocks ext (Suc count) block1_ptr block2_ptr state =
     bindM (read_words CannotReadShaInput block1_ptr 0 8) (\<lambda>block1.
     bindM (read_words CannotReadShaInput block2_ptr 0 8) (\<lambda>block2.
     let state' = compress256 ext state (words_to_bytes (block1 @ block2)) in
     bindM (add32 block1_ptr 64) (\<lambda>block1_ptr'.
     bindM (add32 block2_ptr 64) (\<lambda>block2_ptr'.
     sha_blocks ext count block1_ptr' block2_ptr' state'))))"

definition ecall_sha :: "externs \<Rightarrow> (Simulator, vm_error, ecall_result) M" where
  "ecall_sha ext =
     bindM (getM (reg REG_A0)) (\<lambda>out_state_ptr.
     bindM (getM (reg REG_A1)) (\<lambda>in_state_ptr.
     bindM (getM (reg REG_A2)) (\<lambda>block1_ptr.
     bindM (getM (reg REG_A3)) (\<lambda>block2_ptr.
     bindM (getM (reg REG_A4)) (\<lambda>count.
     bindM (lift_mem (read_loop (\<lambda>a. read_mem a Byte) CannotReadPreviousHash in_state_ptr 0 32)) (\<lambda>in_state.
     let state = map swap_bytes (bytes_to_words in_state) in
     bindM (lift_mem (sha_blocks ext (unat count) block1_ptr block2_ptr state)) (\<lambda>state'.
     let out_state = words_to_bytes (map swap_bytes state') in
     bindM (lift_mem (write_loop (\<lambda>a v. write_mem a Byte v) CannotWriteFinalHash
              out_state_ptr 0 out_state)) (\<lambda>_.
     bindM (getM (\<lambda>s. pc (hart_state s))) (\<lambda>p.
     bindM (add32 p 4) (\<lambda>p'.
     bindM (mul32 73 count) (\<lambda>extra.
     ret (p', None, unat extra))))))))))))"

definition load_bigint_le_bytes :: "u32 \<Rightarrow> (Memory, vm_error, u8 list) M" where
  "load_bigint_le_bytes ptr =
     bindM (read_words CannotReadBigInt ptr 0 8) (\<lambda>arr. ret (words_to_bytes arr))"

text \<open>
  The multiplication of the \<open>BIGINT\<close> ecall, modulo \<open>n\<close> unless \<open>n\<close> is zero; \<open>None\<close> is the
  panic of \<open>expect\<close>.
\<close>

definition bigint_result :: "bigint_lib \<Rightarrow> 256 word \<Rightarrow> 256 word \<Rightarrow> 256 word \<Rightarrow> 256 word option" where
  "bigint_result lib x y n =
     (if n = 0 then checked_mul256 lib x y
      else (case mul_wide256 lib x y of
              (w_lo, w_hi) \<Rightarrow>
                let w = concat512 lib w_hi w_lo in
                Some (resize_down lib (rem512 lib w (resize_up lib n)))))"

text \<open>
  The loop that stores the result: for each of its words one access at \<open>z_ptr + 4 * i\<close>, of
  size \<open>Byte\<close>.
\<close>

primrec store_words :: "u32 \<Rightarrow> nat \<Rightarrow> u32 list \<Rightarrow> (Memory, vm_error, unit) M" where
  "store_words z_ptr i [] = ret ()"
| "store_words z_ptr i (w # ws) =
     bindM (add32 z_ptr (of_nat (i * 4))) (\<lambda>a.
     bindM (write_mem a Byte w) (\<lambda>res.
     if res then store_words z_ptr (Suc i) ws else throw CannotWriteBigInt))"

definition ecall_bigint :: "externs \<Rightarrow> (Simulator, vm_error, ecall_result) M" where
  "ecall_bigint ext =
     bindM (getM (reg REG_A0)) (\<lambda>z_ptr.
     bindM (getM (reg REG_A1)) (\<lambda>op.
     bindM (getM (reg REG_A2)) (\<lambda>x_ptr.
     bindM (getM (reg REG_A3)) (\<lambda>y_ptr.
     bindM (getM (reg REG_A4)) (\<lambda>n_ptr.
     if op \<noteq> 0 then throw BigIntOpNotZero
     else
       bindM (lift_mem (load_bigint_le_bytes x_ptr)) (\<lambda>xb.
       bindM (lift_mem (load_bigint_le_bytes y_ptr)) (\<lambda>yb.
       bindM (lift_mem (load_bigint_le_bytes n_ptr)) (\<lambda>nb.
       let lib = bigint ext;
           x = from_le_bytes256 lib xb; y = from_le_bytes256 lib yb; n = from_le_bytes256 lib nb in
       case bigint_result lib x y n of
         None \<Rightarrow> panicM ExpectFailed
       | Some z \<Rightarrow>
           bindM (lift_mem (store_words z_ptr 0 (bytes_to_words (to_le_bytes256 lib z)))) (\<lambda>_.
           next_pc None 9)))))))))"

definition ecall :: "externs \<Rightarrow> (Simulator, vm_error, ecall_result) M" where
  "ecall ext =
     bindM (getM (reg REG_T0)) (\<lambda>n.
     if n = ECALL_HALT then ecall_halt
     else if n = ECALL_INPUT then ecall_input
     else if n = ECALL_SOFTWARE then ecall_software ext
     else if n = ECALL_SHA then ecall_sha ext
     else if n = ECALL_BIGINT then ecall_bigint ext
     else bindM (getM (\<lambda>s. pc (hart_state s))) (\<lambda>p. throw (UnknownEcall n p)))"

section \<open>One step\<close>

definition rs2_of :: "u32 \<Rightarrow> u32" where
  "rs2_of insn = drop_bit 20 (insn AND 0x01f00000)"

definition is_ecall :: "u32 \<Rightarrow> bool" where
  "is_ecall insn \<longleftrightarrow> opcode_of insn = 0b1110011 \<and> funct3_of insn = 0 \<and>
     (rs2_of insn = 0 \<or> rs2_of insn = 1) \<and> funct7_of insn = 0"

text \<open>
  The executor runs on the register file and the memory; its error is reported with the
  program counter it leaves.
\<close>

definition run_exec :: "externs \<Rightarrow> (Simulator, vm_error, unit) M" where
  "run_exec ext s =
     (case exec_step ext (hart_state s, mem s) of
        (r, (h, m)) \<Rightarrow>
          let s' = s\<lparr>hart_state := h, mem := m\<rparr> in
          (case r of
             Ok _ \<Rightarrow> (Ok (), s')
           | Err exc \<Rightarrow> (Err (ExecException (pc h) exc), s')
           | Panic p \<Rightarrow> (Panic p, s')
           | Hang \<Rightarrow> (Hang, s')))"

definition clear_trigger :: "Simulator \<Rightarrow> Simulator" where
  "clear_trigger s = s\<lparr>mem := (mem s)\<lparr>watch_trigger := None\<rparr>\<rparr>"

definition count_step :: "externs \<Rightarrow> nat \<Rightarrow> nat \<Rightarrow> (Simulator, vm_error, unit) M" where
  "count_step ext opcode_cycle extra_cycle =
     lift_cycle (callback_step (hashset_iter ext) opcode_cycle extra_cycle)"

definition step :: "externs \<Rightarrow> (Simulator, vm_error, ExitCode option) M" where
  "step ext =
     bindM (getM (\<lambda>s. pc (hart_state s))) (\<lambda>p.
     bindM (lift_mem (read_mem p Word)) (\<lambda>r.
     bindM (ok_or CannotReadNextInstruction r) (\<lambda>insn.
     bindM (modM clear_trigger) (\<lambda>_.
     case get_opcode_cycle insn of
       Inl e \<Rightarrow> throw e
     | Inr opcode_cycle \<Rightarrow>
         if is_ecall insn then
           bindM (ecall ext) (\<lambda>(new_pc, exit, extra_cycle).
           bindM (modM (set_pc new_pc)) (\<lambda>_.
           bindM (count_step ext opcode_cycle extra_cycle) (\<lambda>_.
           bindM (getM (\<lambda>s. watch_trigger (mem s))) (\<lambda>t.
           case (exit, t) of
             (None, Some (kind, addr)) \<Rightarrow> ret (Some (HwWatchPoint kind addr))
           | _ \<Rightarrow> ret exit))))
         else
           bindM (run_exec ext) (\<lambda>_.
           bindM (count_step ext opcode_cycle 0) (\<lambda>_.
           bindM (getM (\<lambda>s. watch_trigger (mem s))) (\<lambda>t.
           case t of
             Some (kind, addr) \<Rightarrow> ret (Some (HwWatchPoint kind addr))
           | None \<Rightarrow> ret None)))))))"

section \<open>The frame of the memory loops\<close>

lemma preserves_frame_access [simp, intro]:
  "preserves (same_frame m0) (read_mem a sz)" "preserves (same_frame m0) (write_mem a sz v)"
  by (auto simp: preserves_def intro: same_frame_trans same_frame_read_mem same_frame_write_mem)

lemma frame_of_preserves: "(\<And>m0. preserves (same_frame m0) f) \<Longrightarrow> same_frame m (snd (f m))"
  by (simp add: preserves_def)

lemma read_name_frame: "same_frame m (snd (read_name addr s m))"
proof (induction addr s m rule: read_name.induct)
  case (1 addr s m)
  obtain r m' where rd: "read_mem addr Byte m = (r, m')" by fastforce
  then have fr: "same_frame m m'" using same_frame_read_mem [of m addr Byte] by simp
  show ?case
  proof (cases "\<exists>v a'. r = Ok (Some v) \<and> (ucast v :: u8) \<noteq> 0 \<and> checked_add32 addr 1 = Some a'")
    case True
    then obtain v a' where v: "r = Ok (Some v)" "(ucast v :: u8) \<noteq> 0" "checked_add32 addr 1 = Some a'"
      by blast
    have "same_frame m' (snd (read_name a' (s @ [ucast v]) m'))"
      using "1.IH" rd v by simp
    with rd v fr show ?thesis by (subst read_name.simps) (simp add: same_frame_trans)
  next
    case False
    with rd fr show ?thesis
      by (subst read_name.simps) (auto split: outcome.split option.split)
  qed
qed

lemma preserves_read_words [simp, intro]: "preserves (same_frame m0) (read_words e ptr i n)"
  by (induction n arbitrary: i) (auto intro!: preserves_bindM)

lemma preserves_sha_blocks [simp, intro]: "preserves (same_frame m0) (sha_blocks ext n p1 p2 st)"
  by (induction n arbitrary: p1 p2 st) (auto simp: Let_def intro!: preserves_bindM)

lemma preserves_store_words [simp, intro]: "preserves (same_frame m0) (store_words p i ws)"
  by (induction ws arbitrary: i) (auto intro!: preserves_bindM)

lemma preserves_load_bigint [simp, intro]: "preserves (same_frame m0) (load_bigint_le_bytes p)"
  by (auto simp: load_bigint_le_bytes_def intro!: preserves_bindM)

text \<open>
  The simulator's memory stays within the frame of \<open>m0\<close>. Together with \<open>sim_wf\<close> this is
  what every ecall keeps, whatever its outcome.
\<close>

definition mem_frame :: "Memory \<Rightarrow> Simulator \<Rightarrow> bool" where
  "mem_frame m0 s \<longleftrightarrow> same_frame m0 (mem s)"

lemma mem_frame_simps [simp]:
  "mem_frame m0 (set_reg i v s) = mem_frame m0 s" "mem_frame m0 (set_pc v s) = mem_frame m0 s"
  "mem_frame m0 (s\<lparr>stdin := c\<rparr>) = mem_frame m0 s" "mem_frame m0 (set_channel ch c s) = mem_frame m0 s"
  "mem_frame m0 (s\<lparr>random_calls := k\<rparr>) = mem_frame m0 s"
  by (cases ch; simp add: mem_frame_def set_pc_def)+

lemma preserves_mem_frame_lift [intro]:
  assumes "\<And>m. same_frame m (snd (f m))"
  shows "preserves (mem_frame m0) (lift_mem f)"
proof
  fix s assume "mem_frame m0 s"
  then show "mem_frame m0 (snd (lift_mem f s))"
    using assms [of "mem s"] by (auto simp: lift_mem_def mem_frame_def intro: same_frame_trans split: prod.split)
qed

lemma preserves_mem_frame_parts [simp, intro]:
  "preserves (mem_frame m0) (ret_regs a b)" "preserves (mem_frame m0) (read_guest e p n)"
  "preserves (mem_frame m0) (from_utf8 bs)" "preserves (mem_frame m0) (extend_channel ch bs)"
  by (auto simp: ret_regs_def read_guest_def from_utf8_def extend_channel_def mem_read_loop_frame
      intro!: preserves_modM)

lemma lift_cycle_getM_state: "snd (lift_cycle (getM f) s) = s"
proof -
  have "mem s\<lparr>session_cycle_callback := Some c\<rparr> = mem s"
    if "session_cycle_callback (mem s) = Some c" for c
    using that by (cases "mem s") simp
  then have "s\<lparr>mem := mem s\<lparr>session_cycle_callback := Some c\<rparr>\<rparr> = s"
    if "session_cycle_callback (mem s) = Some c" for c
    using that by (cases s) simp
  then show ?thesis by (cases "session_cycle_callback (mem s)") (simp_all add: lift_cycle_def getM_def)
qed

lemma preserves_lift_cycle_getM [simp, intro]: "preserves I (lift_cycle (getM f))"
  by (simp add: preserves_def lift_cycle_getM_state)

lemma preserves_if: "preserves I a \<Longrightarrow> preserves I b \<Longrightarrow> preserves I (if c then a else b)"
  by simp

lemma handle_syscall_mem_frame: "preserves (mem_frame m0) (handle_syscall ext name to_guest)"
proof -
  have "preserves (mem_frame m0) (sys_random ext to_guest)" "preserves (mem_frame m0) (sys_cycle_count to_guest)"
    "preserves (mem_frame m0) (sys_panic to_guest)" "preserves (mem_frame m0) (sys_read_avail to_guest)"
    "preserves (mem_frame m0) (sys_write to_guest)" "preserves (mem_frame m0) (sys_log to_guest)"
    "preserves (mem_frame m0) (sys_verify to_guest)" "preserves (mem_frame m0) (sys_argc to_guest)"
    "preserves (mem_frame m0) (sys_getenv to_guest)" "preserves (mem_frame m0) (sys_args to_guest)"
    "preserves (mem_frame m0) (sys_read to_guest)" "preserves (mem_frame m0) (ret to_guest)"
    by (auto simp: sys_random_def sys_cycle_count_def sys_panic_def sys_read_avail_def sys_write_def
        sys_log_def sys_verify_def sys_argc_def sys_getenv_def sys_args_def sys_read_def Let_def
        intro!: preserves_bindM preserves_modM split: option.split prod.split)
  then show ?thesis
    unfolding handle_syscall_def by (intro preserves_bindM preserves_if) simp_all
qed

lemma lift_loops [simp, intro]:
  "preserves sim_wf (lift_mem (read_name a bs))" "preserves (mem_frame m0) (lift_mem (read_name a bs))"
  "preserves sim_wf (lift_mem (read_loop (\<lambda>a. read_mem a sz) e p i n))"
  "preserves (mem_frame m0) (lift_mem (read_loop (\<lambda>a. read_mem a sz) e p i n))"
  "preserves sim_wf (lift_mem (write_loop (\<lambda>a v. write_mem a sz v) e p i bs))"
  "preserves (mem_frame m0) (lift_mem (write_loop (\<lambda>a v. write_mem a sz v) e p i bs))"
  "preserves sim_wf (lift_mem (sha_blocks ext k p q st))"
  "preserves (mem_frame m0) (lift_mem (sha_blocks ext k p q st))"
  "preserves sim_wf (lift_mem (store_words p i ws))"
  "preserves (mem_frame m0) (lift_mem (store_words p i ws))"
  "preserves sim_wf (lift_mem (load_bigint_le_bytes p))"
  "preserves (mem_frame m0) (lift_mem (load_bigint_le_bytes p))"
  by (intro preserves_lift_mem preserves_mem_frame_lift read_name_frame mem_read_loop_frame
      mem_write_loop_frame frame_of_preserves preserves_sha_blocks preserves_store_words
      preserves_load_bigint)+

lemmas ecall_defs = ecall_def ecall_halt_def ecall_input_def ecall_software_def ecall_sha_def
  ecall_bigint_def next_pc_def

lemma ecall_preserves:
  assumes I: "I = sim_wf \<or> I = mem_frame m0"
  shows "preserves I (ecall ext)"
proof -
  have hs: "preserves I (handle_syscall ext name tg)" for name tg
    using I preserves_handle_syscall handle_syscall_mem_frame by auto
  have parts: "preserves I (from_utf8 bs)" "preserves I (lift_mem (read_name a bs))"
    "preserves I (lift_mem (read_loop (\<lambda>a. read_mem a sz) e p i n))"
    "preserves I (lift_mem (write_loop (\<lambda>a v. write_mem a sz v) e p i bs))"
    "preserves I (lift_mem (sha_blocks ext k p q st))" "preserves I (lift_mem (store_words p i ws))"
    "preserves I (lift_mem (load_bigint_le_bytes p))" for a bs sz e p i n k q st ws
    using I lift_loops by auto
  show ?thesis
    by (auto simp: ecall_defs Let_def hs parts intro!: preserves_bindM split: option.split prod.split)
qed

section \<open>What a step keeps and what it does\<close>

lemma run_exec_frame:
  assumes "exec_documented (exec_step ext)"
  shows "same_frame (mem s) (mem (snd (run_exec ext s)))"
    and "length (registers (hart_state (snd (run_exec ext s)))) = length (registers (hart_state s))"
    and "stdin (snd (run_exec ext s)) = stdin s" "get_channel ch (snd (run_exec ext s)) = get_channel ch s"
proof -
  obtain r h m where e: "exec_step ext (hart_state s, mem s) = (r, (h, m))" by (metis prod_cases3)
  then have "mem_reach (mem s) m" "length (registers h) = length (registers (hart_state s))"
    using assms by (auto simp: exec_documented_def)
  with e mem_reach_frame show "same_frame (mem s) (mem (snd (run_exec ext s)))"
    "length (registers (hart_state (snd (run_exec ext s)))) = length (registers (hart_state s))"
    "stdin (snd (run_exec ext s)) = stdin s" "get_channel ch (snd (run_exec ext s)) = get_channel ch s"
    by (cases ch; auto simp: run_exec_def Let_def split: outcome.split)+
qed

lemma preserves_run_exec:
  assumes "exec_documented (exec_step ext)"
  shows "preserves sim_wf (run_exec ext)" and "preserves (mem_frame m0) (run_exec ext)"
proof -
  show "preserves sim_wf (run_exec ext)"
  proof
    fix s assume wf: "sim_wf s"
    note fr = run_exec_frame [OF assms, where s = s]
    have "cursor_wf (get_channel ch s)" for ch using wf by (rule cursor_wf_channel)
    then have "cursor_wf (get_channel ch (snd (run_exec ext s)))" for ch
      using fr(4) [of ch] by simp
    from this [of ChStdout] this [of ChStderr] this [of ChJournal]
    show "sim_wf (snd (run_exec ext s))"
      using wf fr(1-3) same_frame_wf [OF fr(1)] same_frame_callback [OF fr(1)] by (simp add: sim_wf_def)
  qed
  show "preserves (mem_frame m0) (run_exec ext)"
    using run_exec_frame(1) [OF assms] by (auto simp: preserves_def mem_frame_def intro: same_frame_trans)
qed

lemma preserves_count_step:
  assumes "enumerates (hashset_iter ext)"
  shows "preserves sim_wf (count_step ext oc ex)"
  unfolding count_step_def by (rule preserves_lift_cycle) (rule scc_wf_callback_step [OF assms])

lemma clear_trigger_simps [simp]:
  "sim_wf (clear_trigger s) = sim_wf s" "mem_wf (mem (clear_trigger s)) = mem_wf (mem s)"
  "watch_trigger (mem (clear_trigger s)) = None"
  "hw_watchpoints (mem (clear_trigger s)) = hw_watchpoints (mem s)"
  "session_cycle_callback (mem (clear_trigger s)) = session_cycle_callback (mem s)"
  by (simp_all add: clear_trigger_def sim_wf_def mem_wf_def)

lemma preserves_step:
  assumes "externs_documented ext"
  shows "preserves sim_wf (step ext)"
proof -
  have d: "enumerates (hashset_iter ext)" "exec_documented (exec_step ext)"
    using assms by (auto simp: externs_documented_def)
  note parts = ecall_preserves [of sim_wf undefined ext] preserves_run_exec(1) [OF d(2)]
    preserves_count_step [OF d(1)]
  have "preserves sim_wf (lift_mem (read_mem p Word))" for p
    by (rule preserves_lift_mem) (rule same_frame_read_mem)
  moreover have "preserves sim_wf (modM clear_trigger)" "preserves sim_wf (modM (set_pc p))" for p
    by (auto intro!: preserves_modM)
  ultimately show ?thesis
    unfolding step_def
    by (auto simp: parts intro!: preserves_bindM split: sum.split option.split prod.split)
qed

lemma count_step_frame:
  "hw_watchpoints (mem (snd (count_step ext oc ex s))) = hw_watchpoints (mem s)"
  "watch_trigger (mem (snd (count_step ext oc ex s))) = watch_trigger (mem s)"
  by (simp_all add: count_step_def lift_cycle_def split: option.split prod.split)

lemma mem_set_pc: "mem (set_pc p s) = mem s"
  by (simp add: set_pc_def)

text \<open>No ecall reports a watchpoint: that is left to \<open>step\<close>.\<close>

lemma returns_ecall: "returns (\<lambda>(p, x, n). \<forall>k a. x \<noteq> Some (HwWatchPoint k a)) (ecall ext)"
  by (auto simp: ecall_defs Let_def intro!: returns_bindM split: option.split prod.split)

lemma legal_cycles_pos: "get_opcode_cycle insn = Inr n \<Longrightarrow> 1 \<le> n"
  by (auto simp: get_opcode_cycle_def op_cycle_table_def Let_def split: if_splits option.splits)

text \<open>
  The shape of a step that returns: a state \<open>s1\<close> with no pending trigger, the instruction's
  own effect up to \<open>s2\<close>, and the charge.
\<close>

lemma step_OkE:
  assumes st: "step ext s = (Ok x, s')" and doc: "externs_documented ext" and wf: "sim_wf s"
  obtains s1 s2 :: Simulator and oc ex where
    "watch_trigger (mem s1) = None" "same_frame (mem (clear_trigger s)) (mem s1)"
    "same_frame (mem s1) (mem s2)" "sim_wf s2"
    "count_step ext oc ex s2 = (Ok (), s')" "1 \<le> oc"
    "\<And>k a. x = Some (HwWatchPoint k a) \<Longrightarrow> watch_trigger (mem s') = Some (k, a)"
    "x = None \<Longrightarrow> watch_trigger (mem s') = None"
proof -
  have d: "exec_documented (exec_step ext)" using doc by (simp add: externs_documented_def)
  from st obtain r s0 insn oc where
    rd: "lift_mem (read_mem (pc (hart_state s)) Word) s = (Ok r, s0)"
    and oc: "get_opcode_cycle insn = Inr oc"
    and rest: "(if is_ecall insn then
           bindM (ecall ext) (\<lambda>(new_pc, exit, extra_cycle).
           bindM (modM (set_pc new_pc)) (\<lambda>_.
           bindM (count_step ext oc extra_cycle) (\<lambda>_.
           bindM (getM (\<lambda>s. watch_trigger (mem s))) (\<lambda>t.
           case (exit, t) of
             (None, Some (kind, addr)) \<Rightarrow> ret (Some (HwWatchPoint kind addr))
           | _ \<Rightarrow> ret exit))))
         else
           bindM (run_exec ext) (\<lambda>_.
           bindM (count_step ext oc 0) (\<lambda>_.
           bindM (getM (\<lambda>s. watch_trigger (mem s))) (\<lambda>t.
           case t of
             Some (kind, addr) \<Rightarrow> ret (Some (HwWatchPoint kind addr))
           | None \<Rightarrow> ret None)))) (clear_trigger s0) = (Ok x, s')"
  proof -
    from st obtain v t where v: "lift_mem (read_mem (pc (hart_state s)) Word) s = (Ok v, t)"
      by (auto simp: step_def bindM_getM bindM_eq_Ok [of "lift_mem f" for f])
    with st obtain insn where insn: "v = Some insn"
      by (cases v) (auto simp: step_def bindM_run bindM_def [of "lift_mem f" for f])
    with st v obtain oc where "get_opcode_cycle insn = Inr oc"
      by (cases "get_opcode_cycle insn")
        (auto simp: step_def bindM_run bindM_def [of "lift_mem f" for f] throw_def)
    with that [OF v this] st v insn show ?thesis
      by (simp add: step_def bindM_run bindM_def [of "lift_mem f" for f])
  qed
  let ?s1 = "clear_trigger s0"
  have fr0: "same_frame (mem s) (mem s0)"
    using rd same_frame_read_mem [of "mem s" "pc (hart_state s)" Word]
    by (auto simp: lift_mem_def split: prod.splits)
  have wf0: "sim_wf s0"
    using rd sim_wf_frame [OF wf] same_frame_read_mem [of "mem s" "pc (hart_state s)" Word]
    by (auto simp: lift_mem_def split: prod.splits)
  have fr1: "same_frame (mem (clear_trigger s)) (mem ?s1)"
    using fr0 by (simp add: same_frame_def trigger_ok_def)
  show ?thesis
  proof (cases "is_ecall insn")
    case True
    with rest obtain p exit n s2 where
      ec: "ecall ext ?s1 = (Ok (p, exit, n), s2)"
      and cnt: "count_step ext oc n (set_pc p s2) = (Ok (), s')"
      and x: "x = (case (exit, watch_trigger (mem s')) of
             (None, Some (kind, addr)) \<Rightarrow> Some (HwWatchPoint kind addr) | _ \<Rightarrow> exit)"
      by (auto simp: bindM_eq_Ok getM_def modM_def ret_def split: option.splits prod.splits)
    have "same_frame (mem ?s1) (mem s2)"
      using preservesD [OF ecall_preserves [of "mem_frame (mem ?s1)" "mem ?s1" ext] _ ec]
      by (simp add: mem_frame_def)
    moreover have "sim_wf s2"
      using preservesD [OF ecall_preserves [of sim_wf undefined ext] _ ec] wf0 by simp
    moreover have "exit \<noteq> Some (HwWatchPoint k a)" for k a
      using returnsD [OF returns_ecall ec] by simp
    ultimately show ?thesis
      using x fr1 cnt legal_cycles_pos [OF oc]
      by (intro that [of ?s1 "set_pc p s2" oc n]) (auto simp: mem_set_pc split: option.splits prod.splits)
  next
    case False
    with rest obtain s2 where
      ex: "run_exec ext ?s1 = (Ok (), s2)" and cnt: "count_step ext oc 0 s2 = (Ok (), s')"
      and x: "x = (case watch_trigger (mem s') of
             Some (kind, addr) \<Rightarrow> Some (HwWatchPoint kind addr) | None \<Rightarrow> None)"
      by (auto simp: bindM_eq_Ok getM_def modM_def ret_def split: option.splits prod.splits)
    have "same_frame (mem ?s1) (mem s2)"
      using preservesD [OF preserves_run_exec(2) [OF d, of "mem ?s1"] _ ex] by (simp add: mem_frame_def)
    moreover have "sim_wf s2"
      using preservesD [OF preserves_run_exec(1) [OF d] _ ex] wf0 by simp
    ultimately show ?thesis
      using x fr1 cnt legal_cycles_pos [OF oc]
      by (intro that [of ?s1 s2 oc 0]) (auto split: option.splits prod.splits)
  qed
qed

section \<open>Properties\<close>

text \<open>
  Property C1. A step, whether it returns, fails, panics or hangs, keeps the invariant of the
  simulator: pages of 256 words, the counter's invariant, 32 registers, cursors within
  their buffers.
\<close>

theorem step_keeps_invariant:
  assumes "externs_documented ext" and "sim_wf s" and "step ext s = (r, s')"
  shows "sim_wf s'"
  using preservesD [OF preserves_step] assms by metis

text \<open>
  Property C25. A step that returns advances the session's cycle count.
\<close>

theorem step_advances_cycles:
  assumes "externs_documented ext" and "sim_wf s" and "step ext s = (Ok x, s')"
  shows "\<exists>c c'. session_cycle_callback (mem s) = Some c \<and> session_cycle_callback (mem s') = Some c' \<and>
           get_session_cycle c < get_session_cycle c'"
proof -
  from assms(3,1,2) obtain s1 s2 :: Simulator and oc ex where
    fr: "same_frame (mem (clear_trigger s)) (mem s1)" "same_frame (mem s1) (mem s2)" and wf: "sim_wf s2"
    and cnt: "count_step ext oc ex s2 = (Ok (), s')" "1 \<le> oc" by (rule step_OkE) blast
  obtain c where c: "session_cycle_callback (mem s) = Some c" using assms(2) by (auto simp: sim_wf_def)
  obtain c2 where c2: "session_cycle_callback (mem s2) = Some c2" "scc_wf c2"
    using wf by (auto simp: sim_wf_def mem_wf_def)
  have same: "get_session_cycle c2 = get_session_cycle c"
    using fr c c2 by (auto simp: same_frame_def)
  from cnt(1) c2 obtain c' where
    st: "callback_step (hashset_iter ext) oc ex c2 = (Ok (), c')" "session_cycle_callback (mem s') = Some c'"
    by (auto simp: count_step_def lift_cycle_def split: prod.splits)
  have "get_session_cycle c2 + oc \<le> get_session_cycle c'"
    using callback_step_advances [OF _ c2(2) st(1)] assms(1) by (simp add: externs_documented_def)
  with same c st(2) cnt(2) show ?thesis by auto
qed

text \<open>
  Property C26. A step reports a hardware watchpoint only when a watchpoint of that kind is
  registered, and then leaves it pending in the memory; a step that reports nothing leaves
  none pending. The registered watchpoints do not change.
\<close>

theorem step_reports_watchpoint:
  assumes "externs_documented ext" and "sim_wf s" and "step ext s = (Ok x, s')"
  shows "hw_watchpoints (mem s') = hw_watchpoints (mem s) \<and>
    (x = None \<longrightarrow> watch_trigger (mem s') = None) \<and>
    (\<forall>k a. x = Some (HwWatchPoint k a) \<longrightarrow> watch_trigger (mem s') = Some (k, a) \<and>
       (\<exists>ws wl. (ws, wl, k) \<in> set (hw_watchpoints (mem s))))"
proof -
  from assms(3,1,2) obtain s1 s2 :: Simulator and oc ex where
    t: "watch_trigger (mem s1) = None" and
    fr: "same_frame (mem (clear_trigger s)) (mem s1)" "same_frame (mem s1) (mem s2)"
    and cnt: "count_step ext oc ex s2 = (Ok (), s')"
    and x: "\<And>k a. x = Some (HwWatchPoint k a) \<Longrightarrow> watch_trigger (mem s') = Some (k, a)"
      "x = None \<Longrightarrow> watch_trigger (mem s') = None" by (rule step_OkE) blast
  have "hw_watchpoints (mem s') = hw_watchpoints (mem s2)" "watch_trigger (mem s') = watch_trigger (mem s2)"
    using count_step_frame [of ext oc ex s2] cnt by simp_all
  with t fr x show ?thesis by (auto simp: same_frame_def trigger_ok_def)
qed

section \<open>Halting\<close>

lemma ecall_halt_unfold:
  "ecall_halt s =
     (if reg REG_A0 s AND 0xff = HALT_TERMINATE
      then (Ok (pc (hart_state s), Some (Halted (drop_bit 8 (reg REG_A0 s) AND 0xff)), 0), s)
      else if reg REG_A0 s AND 0xff = HALT_PAUSE
      then (Ok (pc (hart_state s), Some (Paused (drop_bit 8 (reg REG_A0 s) AND 0xff)), 0), s)
      else (Err (IllegalHaltType (reg REG_A0 s AND 0xff)), s))"
  by (simp add: ecall_halt_def bindM_run Let_def ret_def throw_def)

lemma returns_ecall_no_exit:
  "returns (\<lambda>(p, x, n). x = None) ecall_input" "returns (\<lambda>(p, x, n). x = None) (ecall_software ext)"
  "returns (\<lambda>(p, x, n). x = None) (ecall_sha ext)" "returns (\<lambda>(p, x, n). x = None) (ecall_bigint ext)"
  by (auto simp: ecall_defs Let_def intro!: returns_bindM split: option.split prod.split)

lemma ecall_unfold:
  "ecall ext s =
     (if reg REG_T0 s = ECALL_HALT then ecall_halt s
      else if reg REG_T0 s = ECALL_INPUT then ecall_input s
      else if reg REG_T0 s = ECALL_SOFTWARE then ecall_software ext s
      else if reg REG_T0 s = ECALL_SHA then ecall_sha ext s
      else if reg REG_T0 s = ECALL_BIGINT then ecall_bigint ext s
      else (Err (UnknownEcall (reg REG_T0 s) (pc (hart_state s))), s))"
  by (simp add: ecall_def bindM_run throw_def)

lemma ecall_exit:
  assumes "ecall ext s = (Ok (p, Some x, n), s')"
  shows "s' = s \<and> p = pc (hart_state s) \<and> n = 0 \<and> reg REG_T0 s = ECALL_HALT \<and>
    (x = Halted (drop_bit 8 (reg REG_A0 s) AND 0xff) \<and> reg REG_A0 s AND 0xff = HALT_TERMINATE \<or>
     x = Paused (drop_bit 8 (reg REG_A0 s) AND 0xff) \<and> reg REG_A0 s AND 0xff = HALT_PAUSE)"
proof -
  have "ecall_input s \<noteq> (Ok (p, Some x, n), s')" "ecall_software ext s \<noteq> (Ok (p, Some x, n), s')"
    "ecall_sha ext s \<noteq> (Ok (p, Some x, n), s')" "ecall_bigint ext s \<noteq> (Ok (p, Some x, n), s')"
    using returnsD [OF returns_ecall_no_exit(1), of s] returnsD [OF returns_ecall_no_exit(2), of ext s]
      returnsD [OF returns_ecall_no_exit(3), of ext s] returnsD [OF returns_ecall_no_exit(4), of ext s]
    by fastforce+
  then have "ecall_halt s = (Ok (p, Some x, n), s') \<and> reg REG_T0 s = ECALL_HALT"
    using assms unfolding ecall_unfold by (auto split: if_splits)
  then show ?thesis unfolding ecall_halt_unfold by (auto split: if_splits)
qed

text \<open>A step that fetches an ecall.\<close>

lemma is_ecall_cycles: "is_ecall insn \<Longrightarrow> get_opcode_cycle insn = Inr 1"
  by (simp add: is_ecall_def get_opcode_cycle_def Let_def)

lemma step_ecall:
  assumes "read_mem (pc (hart_state s)) Word (mem s) = (Ok (Some insn), m)" and "is_ecall insn"
  shows "step ext s =
     bindM (ecall ext) (\<lambda>(new_pc, exit, extra_cycle).
     bindM (modM (set_pc new_pc)) (\<lambda>_.
     bindM (count_step ext 1 extra_cycle) (\<lambda>_.
     bindM (getM (\<lambda>s. watch_trigger (mem s))) (\<lambda>t.
     case (exit, t) of
       (None, Some (kind, addr)) \<Rightarrow> ret (Some (HwWatchPoint kind addr))
     | _ \<Rightarrow> ret exit)))) (clear_trigger (s\<lparr>mem := m\<rparr>))"
  using assms by (simp add: step_def bindM_run bindM_def [of "lift_mem f" for f] lift_mem_def is_ecall_cycles)

lemma clear_trigger_hart [simp]: "hart_state (clear_trigger s) = hart_state s"
  by (simp add: clear_trigger_def)

lemma count_step_hart: "hart_state (snd (count_step ext oc ex s)) = hart_state s"
  by (simp add: count_step_def lift_cycle_def split: option.split prod.split)

lemma set_pc_same [simp]: "p = pc (hart_state s) \<Longrightarrow> hart_state (set_pc p s) = hart_state s"
  by (simp add: set_pc_def)

text \<open>A step that ends the program has fetched an ecall, and the ecall has asked for it.\<close>

lemma step_exit_parts:
  assumes "step ext s = (Ok (Some x), s')" and "\<forall>k a. x \<noteq> HwWatchPoint k a"
  obtains insn m p n s2 where
    "read_mem (pc (hart_state s)) Word (mem s) = (Ok (Some insn), m)" "is_ecall insn"
    "ecall ext (clear_trigger (s\<lparr>mem := m\<rparr>)) = (Ok (p, Some x, n), s2)"
    "count_step ext 1 n (set_pc p s2) = (Ok (), s')"
proof -
  obtain v m where v: "read_mem (pc (hart_state s)) Word (mem s) = (v, m)" by fastforce
  with assms obtain insn where insn: "v = Ok (Some insn)"
    by (cases v; cases "case v of Ok r \<Rightarrow> r | _ \<Rightarrow> None")
      (auto simp: step_def bindM_run bindM_def [of "lift_mem f" for f] lift_mem_def)
  have ec: "is_ecall insn"
  proof (rule ccontr)
    assume "\<not> is_ecall insn"
    with assms v insn show False
      by (cases "get_opcode_cycle insn")
        (auto simp: step_def bindM_run bindM_def [of "lift_mem f" for f] lift_mem_def throw_def ret_def
          bindM_eq_Ok [of "run_exec ext"] bindM_eq_Ok [of "count_step ext a b" for a b] split: option.splits)
  qed
  from assms obtain p n s2 where
    "ecall ext (clear_trigger (s\<lparr>mem := m\<rparr>)) = (Ok (p, Some x, n), s2)"
    "count_step ext 1 n (set_pc p s2) = (Ok (), s')"
    unfolding step_ecall [OF v [unfolded insn] ec]
    by (auto simp: bindM_eq_Ok [of "ecall ext"] bindM_eq_Ok [of "count_step ext a b" for a b] bindM_run ret_def
        split: option.splits)
  with v insn ec show ?thesis by (intro that [of insn m p n s2]) simp_all
qed

lemma step_exit:
  assumes "step ext s = (Ok (Some x), s')" and "\<forall>k a. x \<noteq> HwWatchPoint k a"
  shows "hart_state s' = hart_state s \<and> reg REG_T0 s = ECALL_HALT \<and>
    (x = Halted (drop_bit 8 (reg REG_A0 s) AND 0xff) \<and> reg REG_A0 s AND 0xff = HALT_TERMINATE \<or>
     x = Paused (drop_bit 8 (reg REG_A0 s) AND 0xff) \<and> reg REG_A0 s AND 0xff = HALT_PAUSE)"
proof -
  obtain insn m p n s2 where e: "ecall ext (clear_trigger (s\<lparr>mem := m\<rparr>)) = (Ok (p, Some x, n), s2)"
    and c: "count_step ext 1 n (set_pc p s2) = (Ok (), s')"
    by (rule step_exit_parts [OF assms])
  have "hart_state s' = hart_state s"
    using ecall_exit [OF e] count_step_hart [of ext 1 n "set_pc p s2"] c by simp
  with ecall_exit [OF e] show ?thesis by (simp add: reg_def)
qed

text \<open>The encoding of an environment call: the bits that are looked at, in one mask.\<close>

lemma zero_by_parts: "drop_bit k (w :: u32) = 0 \<Longrightarrow> take_bit k w = 0 \<Longrightarrow> w = 0"
  by (metis add.right_neutral bits_ident push_bit_of_0)

lemma is_ecall_bits:
  assumes "is_ecall insn"
  shows "insn AND 0xFFE0707F = 0x73"
proof -
  have op: "insn AND 0x7F = 0x73" and f3: "drop_bit 12 (insn AND 0x7000) = 0"
    and rs: "drop_bit 20 (insn AND 0x01F00000) = 0 \<or> drop_bit 20 (insn AND 0x01F00000) = 1"
    and f7: "drop_bit 25 (insn AND 0xFE000000) = 0"
    using assms by (simp_all add: is_ecall_def opcode_of_def funct3_of_def rs2_of_def funct7_of_def)
  have "insn AND 0x7000 = 0" by (rule zero_by_parts [OF f3]) simp
  moreover have "insn AND 0xFE000000 = 0" by (rule zero_by_parts [OF f7]) simp
  moreover have "insn AND 0x01E00000 = 0"
  proof (rule zero_by_parts)
    have "drop_bit 21 w = drop_bit 1 (drop_bit 20 w)" for w :: u32 by simp
    then have "drop_bit 21 (insn AND 0x01F00000) = 0"
      by (rule ssubst) (rule disjE [OF rs]; simp only:; simp)
    then show "drop_bit 21 (insn AND 0x01E00000) = 0" by simp
  qed simp
  moreover have "insn AND 0xFFE0707F =
      (insn AND 0x7F) OR (insn AND 0x7000) OR (insn AND 0x01E00000) OR (insn AND 0xFE000000)"
    by (simp add: bit.conj_disj_distrib [symmetric] or.assoc)
  ultimately show ?thesis using op by simp
qed

text \<open>
  Property C31. A program stops only at an environment call that asks for it: the word at the program
  counter is the instruction \<open>ecall\<close> (or \<open>ebreak\<close>, which is taken for it; whatever its register
  fields \<open>rd\<close> and \<open>rs1\<close>), and the registers hold the request. The register file and the program
  counter are left as they are, at that call, and the exit code is the second byte of the request.
\<close>

theorem halt_stops_in_place:
  assumes "step ext s = (Ok (Some x), s')" and "\<forall>k a. x \<noteq> HwWatchPoint k a"
  shows "hart_state s' = hart_state s \<and>
    (\<exists>insn. fst (read_mem (pc (hart_state s)) Word (mem s)) = Ok (Some insn) \<and>
       insn AND 0xFFE0707F = 0x73) \<and>
    reg REG_T0 s = ECALL_HALT \<and>
    (x = Halted (drop_bit 8 (reg REG_A0 s) AND 0xff) \<and> reg REG_A0 s AND 0xff = HALT_TERMINATE \<or>
     x = Paused (drop_bit 8 (reg REG_A0 s) AND 0xff) \<and> reg REG_A0 s AND 0xff = HALT_PAUSE)"
proof -
  obtain insn m where "read_mem (pc (hart_state s)) Word (mem s) = (Ok (Some insn), m)" "is_ecall insn"
    by (rule step_exit_parts [OF assms])
  then show ?thesis using step_exit [OF assms] is_ecall_bits by auto
qed

section \<open>The software call\<close>

lemma read_name_spec:
  assumes "guest_inv m" and "guest_range ptr (n + 1)"
    and "\<forall>k < n. byte_at m (ptr + of_nat k) \<noteq> 0" and "byte_at m (ptr + of_nat n) = 0"
  shows "\<exists>m'. read_name ptr s m = (Ok (s @ load (byte_at m) ptr n), m') \<and>
           guest_inv m' \<and> byte_at m' = byte_at m"
  using assms
proof (induction n arbitrary: ptr s m)
  case 0
  then have "in_range ptr" using guest_range_mapped(2) [of ptr 1 0] by simp
  then obtain m' where "read_mem ptr Byte m = (Ok (Some (ucast (byte_at m ptr))), m')"
    "guest_inv m'" "byte_at m' = byte_at m" using guest_store.rd_mapped [OF 0(1)] by blast
  with 0 show ?case by (subst read_name.simps) simp
next
  case (Suc n)
  then have "in_range ptr" using guest_range_mapped(2) [of ptr "Suc n + 1" 0] by simp
  then obtain m1 where m1: "read_mem ptr Byte m = (Ok (Some (ucast (byte_at m ptr))), m1)"
    "guest_inv m1" "byte_at m1 = byte_at m" using guest_store.rd_mapped [OF Suc.prems(1)] by blast
  have lt: "unat ptr + 1 < 2 ^ 32" using Suc.prems(2) by (simp add: guest_range_def cfg_simps)
  then have add: "checked_add32 ptr 1 = Some (ptr + 1)" by (simp add: checked_add32_def)
  have u: "unat (ptr + 1) = unat ptr + 1" using lt by (simp add: unat_add32)
  have "guest_range (ptr + 1) (n + 1)" using Suc.prems(2) u by (simp add: guest_range_def)
  moreover have "\<forall>k < n. byte_at m1 (ptr + 1 + of_nat k) \<noteq> 0"
    using Suc.prems(3) m1(3) by (metis Suc_less_eq add.assoc of_nat_Suc)
  moreover have "byte_at m1 (ptr + 1 + of_nat n) = 0" using Suc.prems(4) m1(3) by (simp add: add.assoc)
  ultimately obtain m2 where "read_name (ptr + 1) (s @ [byte_at m ptr]) m1 =
      (Ok (s @ [byte_at m ptr] @ load (byte_at m) (ptr + 1) n), m2)" "guest_inv m2" "byte_at m2 = byte_at m"
    using Suc.IH [OF m1(2), of "ptr + 1" "s @ [byte_at m ptr]"] m1(3) by auto
  moreover have "byte_at m ptr \<noteq> 0" using Suc.prems(3) by force
  ultimately show ?case using m1(1) add by (subst read_name.simps) (simp add: load_Suc)
qed

text \<open>
  Remark. The name of a system call is the guest's bytes up to the first zero.
\<close>

theorem syscall_name_is_c_string:
  assumes "guest_inv m" and "guest_range ptr (n + 1)"
    and "\<forall>k < n. byte_at m (ptr + of_nat k) \<noteq> 0" and "byte_at m (ptr + of_nat n) = 0"
  shows "\<exists>m'. read_name ptr [] m = (Ok (load (byte_at m) ptr n), m') \<and> byte_at m' = byte_at m"
  using read_name_spec [OF assms, of "[]"] by auto

lemma align_up_4: "unat (align_up (ucast (w :: u32)) 4) = 4 * ((unat w + 3) div 4)"
proof -
  let ?x = "ucast w + 3 :: u64"
  have "?x AND NOT (mask 2) = push_bit 2 (drop_bit 2 ?x)"
  proof (rule bit_word_eqI)
    fix n assume "n < LENGTH(64)"
    show "bit (?x AND NOT (mask 2)) n = bit (push_bit 2 (drop_bit 2 ?x)) n"
    proof (cases "n < 2")
      case False
      then have "2 + (n - 2) = n" by simp
      with False \<open>n < LENGTH(64)\<close> show ?thesis by (simp add: bit_simps del: add_2_eq_Suc)
    qed (simp add: bit_simps)
  qed
  then have "align_up (ucast w) 4 = push_bit 2 (drop_bit 2 ?x)"
    by (simp add: align_up_def mask_eq_exp_minus_1 add.commute)
  also have "\<dots> = drop_bit 2 ?x * 4" by (simp add: push_bit_eq_mult)
  finally have "align_up (ucast w) 4 = drop_bit 2 ?x * 4" .
  moreover have lt: "unat w < 18446744073709551616 - 3" using unat_lt_2p32 [of w] by linarith
  moreover have x: "unat ?x = unat w + 3"
    using lt by (simp add: unat_word_ariths unsigned_ucast_eq take_bit_eq_mod)
  moreover have "unat (drop_bit 2 ?x) = unat ?x div 4"
    by (simp add: drop_bit_eq_div unat_div)
  ultimately show ?thesis
    using unat_lt_2p32 [of w] by (simp add: unat_word_ariths)
qed


text \<open>No system call moves the program counter.\<close>

definition at_pc :: "u32 \<Rightarrow> Simulator \<Rightarrow> bool" where
  "at_pc p s \<longleftrightarrow> pc (hart_state s) = p"

lemma at_pc_simps [simp]:
  "at_pc p (set_reg i v s) = at_pc p s" "at_pc p (s\<lparr>stdin := c\<rparr>) = at_pc p s"
  "at_pc p (set_channel ch c s) = at_pc p s" "at_pc p (s\<lparr>random_calls := k\<rparr>) = at_pc p s"
  "at_pc p (s\<lparr>mem := m\<rparr>) = at_pc p s"
  by (cases ch; simp add: at_pc_def set_reg_def)+

lemma preserves_at_pc_parts [simp, intro]:
  "preserves (at_pc p) (ret_regs a b)" "preserves (at_pc p) (lift_mem f)"
  "preserves (at_pc p) (read_guest e q n)"
  "preserves (at_pc p) (from_utf8 bs)" "preserves (at_pc p) (extend_channel ch bs)"
proof -
  show lm: "preserves (at_pc p) (lift_mem f)" for f :: "(Memory, vm_error, 'c) M"
    by (simp add: lift_mem_def preserves_def split: prod.split)
  then show "preserves (at_pc p) (read_guest e q n)" by (simp add: read_guest_def)
qed (auto simp: ret_regs_def from_utf8_def extend_channel_def intro!: preserves_modM)

lemma handle_syscall_at_pc: "preserves (at_pc p) (handle_syscall ext name to_guest)"
proof -
  have "preserves (at_pc p) (sys_random ext to_guest)" "preserves (at_pc p) (sys_cycle_count to_guest)"
    "preserves (at_pc p) (sys_panic to_guest)" "preserves (at_pc p) (sys_read_avail to_guest)"
    "preserves (at_pc p) (sys_write to_guest)" "preserves (at_pc p) (sys_log to_guest)"
    "preserves (at_pc p) (sys_verify to_guest)" "preserves (at_pc p) (sys_argc to_guest)"
    "preserves (at_pc p) (sys_getenv to_guest)" "preserves (at_pc p) (sys_args to_guest)"
    "preserves (at_pc p) (sys_read to_guest)" "preserves (at_pc p) (ret to_guest)"
    by (auto simp: sys_random_def sys_cycle_count_def sys_panic_def sys_read_avail_def sys_write_def
        sys_log_def sys_verify_def sys_argc_def sys_getenv_def sys_args_def sys_read_def Let_def
        intro!: preserves_bindM preserves_modM split: option.split prod.split)
  then show ?thesis
    unfolding handle_syscall_def by (intro preserves_bindM preserves_if) simp_all
qed

lemma next_pc_Ok:
  "next_pc x n s = (Ok (p, y, k), s') \<longleftrightarrow>
     s' = s \<and> y = x \<and> k = n \<and> unat (pc (hart_state s)) + 4 < 2 ^ 32 \<and> p = pc (hart_state s) + 4"
  by (auto simp: next_pc_def bindM_run ret_def)

lemma ecall_software_Ok:
  assumes "ecall_software ext s = (Ok (p, x, n), s')"
  shows "p = pc (hart_state s) + 4 \<and> x = None \<and>
    n = unat (align_up (ucast (reg REG_A1 s)) 4) + 2 \<and> pc (hart_state s') = pc (hart_state s) \<and>
    \<not> (out_of_range (reg REG_A0 s) \<and> reg REG_A0 s \<noteq> 0)"
proof -
  let ?wr = "\<lambda>tg. if reg REG_A0 s \<noteq> 0
     then lift_mem (write_loop (\<lambda>a v. write_mem a Byte v) CannotWriteFinalHash (reg REG_A0 s) 0 (words_to_bytes tg))
     else ret ()"
  let ?n = "1 + unat (align_up (ucast (reg REG_A1 s)) 4) + 1"
  from assms have ok: "\<not> (out_of_range (reg REG_A0 s) \<and> reg REG_A0 s \<noteq> 0)"
    by (auto simp: ecall_software_def bindM_run throw_def split: if_splits)
  with assms obtain bs s1 name s2 tg ec s3 where
    1: "lift_mem (read_name (reg REG_A2 s) []) s = (Ok bs, s1)" and
    2: "from_utf8 bs s1 = (Ok name, s2)" and
    3: "handle_syscall ext name (replicate (unat (reg REG_A1 s)) 0) s2 = (Ok (tg, ec), s3)" and
    rest: "(if ec \<noteq> None then (\<lambda>t. ret (pc (hart_state t), None, ?n) t)
            else bindM (?wr tg) (\<lambda>_. next_pc None ?n)) s3 = (Ok (p, x, n), s')"
    unfolding ecall_software_def Let_def bindM_getM if_not_P [OF ok]
    by (simp only: bindM_eq_Ok [of "lift_mem f" for f] bindM_eq_Ok [of "from_utf8 b" for b]
        bindM_eq_Ok [of "handle_syscall e a b" for e a b] split_paired_Ex prod.case) blast
  have ec: "ec = None" using returnsD [OF returns_handle_syscall 3] by simp
  with rest obtain s4 where 4: "?wr tg s3 = (Ok (), s4)" and 5: "next_pc None ?n s4 = (Ok (p, x, n), s')"
    by (auto simp: bindM_eq_Ok)
  let ?I = "at_pc (pc (hart_state s))"
  have "?I s" by (simp add: at_pc_def)
  then have "?I s1" using preservesD [OF preserves_at_pc_parts(2) _ 1] by blast
  then have "?I s2" using preservesD [OF preserves_at_pc_parts(4) _ 2] by blast
  then have s3: "?I s3" using preservesD [OF handle_syscall_at_pc _ 3] by blast
  have "preserves ?I (?wr tg)" by simp
  from preservesD [OF this s3 4] have "?I s4" .
  then show ?thesis using 5 ok unfolding next_pc_Ok by (auto simp: at_pc_def)
qed

text \<open>
  Remark. A software call that returns goes on at the next instruction, never ends the
  program, and costs two cycles plus the length of its result buffer in words, rounded up to
  a multiple of four.
\<close>

theorem software_call_cost:
  assumes "ecall_software ext s = (Ok (p, x, n), s')"
  shows "p = pc (hart_state s) + 4 \<and> pc (hart_state s') = pc (hart_state s) \<and> x = None \<and>
    n = 2 + 4 * ((unat (reg REG_A1 s) + 3) div 4)"
  using ecall_software_Ok [OF assms] by (simp add: align_up_4)

section \<open>Calls too large for a segment\<close>

lemma count_step_Hang:
  assumes "1046855 < ex" and "enumerates (hashset_iter ext)" and "sim_wf s"
  shows "fst (count_step ext oc ex s) = Hang"
proof -
  obtain c where "session_cycle_callback (mem s) = Some c" "scc_wf c"
    using assms(3) by (auto simp: sim_wf_def mem_wf_def)
  then show ?thesis
    using oversized_step_never_returns [OF assms(2) _ assms(1)] by (simp add: count_step_def lift_cycle_def)
qed

lemma ecall_sha_Ok:
  assumes "ecall_sha ext s = (Ok (p, x, n), s')"
  shows "n = 73 * unat (reg REG_A4 s)"
  using assms
  by (auto simp: ecall_sha_def bindM_run Let_def bindM_eq_Ok [of "lift_mem f" for f]
      unat_word_ariths ret_def split: if_splits)

text \<open>
  Property C33 (a flaw). An ecall that hashes 14,341 blocks or more, or a software call whose result
  buffer has 1,046,854 words or more, is never completed: a step that executes it does not return a
  result. Where the ecall itself succeeds, the step hangs: its cycles do not fit into an empty
  segment, and \<open>callback_step\<close> opens segments for ever.
\<close>

theorem oversized_ecall_never_completes:
  assumes "externs_documented ext" and "sim_wf s"
    and "read_mem (pc (hart_state s)) Word (mem s) = (Ok (Some insn), m)" and "is_ecall insn"
    and "reg REG_T0 s = ECALL_SHA \<and> 14341 \<le> unat (reg REG_A4 s) \<or>
         reg REG_T0 s = ECALL_SOFTWARE \<and> 1046854 \<le> unat (reg REG_A1 s)"
  shows "step ext s \<noteq> (Ok x, s') \<and>
     (fst (ecall ext (clear_trigger (s\<lparr>mem := m\<rparr>))) = Ok r \<longrightarrow> fst (step ext s) = Hang)"
proof -
  let ?s1 = "clear_trigger (s\<lparr>mem := m\<rparr>)"
  have regs: "reg i ?s1 = reg i s" for i by (simp add: reg_def)
  have wf1: "sim_wf ?s1"
    using sim_wf_frame [OF assms(2)] same_frame_read_mem [of "mem s" "pc (hart_state s)" Word] assms(3) by simp
  have hang: "fst (step ext s) = Hang" if e: "ecall ext ?s1 = (Ok q, s2)" for q s2
  proof -
    obtain p y n where q: "q = (p, y, n)" by (cases q)
    have "sim_wf s2" using preservesD [OF ecall_preserves [of sim_wf undefined ext] wf1 e] by simp
    moreover have "1046855 < n"
      using assms(5) e ecall_sha_Ok [of ext ?s1 p y n s2] ecall_software_Ok [of ext ?s1 p y n s2]
      by (auto simp: q ecall_unfold regs align_up_4 cfg_simps)
    ultimately have "fst (count_step ext 1 n (set_pc p s2)) = Hang"
      using count_step_Hang assms(1) by (simp add: externs_documented_def)
    then show ?thesis
      unfolding step_ecall [OF assms(3,4)]
      by (cases "count_step ext 1 n (set_pc p s2)")
        (simp add: e q bindM_def [of "ecall ext"] bindM_def [of "count_step ext a b" for a b] bindM_run)
  qed
  have "step ext s \<noteq> (Ok x, s')"
  proof
    assume st: "step ext s = (Ok x, s')"
    then obtain q s2 where "ecall ext ?s1 = (Ok q, s2)"
      unfolding step_ecall [OF assms(3,4)] by (auto simp: bindM_eq_Ok [of "ecall ext"])
    from hang [OF this] st show False by simp
  qed
  with hang show ?thesis by (metis prod.collapse)
qed

section \<open>The order of the page sets does not matter\<close>

lemma hashset_iter_unused [simp]:
  "sha_blocks (ext\<lparr>hashset_iter := it\<rparr>) n p q st = sha_blocks ext n p q st"
  "ecall (ext\<lparr>hashset_iter := it\<rparr>) = ecall ext"
  "run_exec (ext\<lparr>hashset_iter := it\<rparr>) = run_exec ext"
proof -
  show 1: "sha_blocks (ext\<lparr>hashset_iter := it\<rparr>) n p q st = sha_blocks ext n p q st" for n p q st
    by (induction n arbitrary: p q st) simp_all
  show "ecall (ext\<lparr>hashset_iter := it\<rparr>) = ecall ext"
    by (simp add: ecall_def ecall_software_def ecall_sha_def ecall_bigint_def handle_syscall_def
        sys_random_def 1 cong: if_cong)
  show "run_exec (ext\<lparr>hashset_iter := it\<rparr>) = run_exec ext"
    by (simp add: run_exec_def fun_eq_iff)
qed

lemma count_step_order:
  assumes "externs_documented ext" and "enumerates it" and "sim_wf s"
  shows "count_step (ext\<lparr>hashset_iter := it\<rparr>) oc ex s = count_step ext oc ex s"
proof -
  obtain c where c: "session_cycle_callback (mem s) = Some c" "touched_ok c"
    using assms(3) by (auto simp: sim_wf_def mem_wf_def scc_wf_def)
  have "callback_step it oc ex c = callback_step (hashset_iter ext) oc ex c"
    using assms(1,2) c(2) by (simp add: callback_step_spec externs_documented_def)
  with c(1) show ?thesis by (simp add: count_step_def lift_cycle_def)
qed

lemma step_order:
  assumes doc: "externs_documented ext" and it: "enumerates it" and wf: "sim_wf s"
  shows "step (ext\<lparr>hashset_iter := it\<rparr>) s = step ext s"
proof -
  have d: "externs_documented ext" "exec_documented (exec_step ext)"
    using doc by (auto simp: externs_documented_def)
  let ?e = "ext\<lparr>hashset_iter := it\<rparr>"
  have read: "preserves sim_wf (lift_mem (read_mem p Word))" for p
    using same_frame_read_mem by blast
  have clear: "preserves sim_wf (modM clear_trigger)"
    by (rule preserves_modM) (simp add: clear_trigger_def sim_wf_def mem_wf_def)
  have ecall: "preserves sim_wf (ecall ext)" by (rule ecall_preserves [of sim_wf undefined]) simp
  have jump: "preserves sim_wf (modM (set_pc p))" for p by (rule preserves_modM) simp
  have cnt: "bindM (count_step ?e oc ex) f t = bindM (count_step ext oc ex) f t" if "sim_wf t" for oc ex t
    and f :: "unit \<Rightarrow> (Simulator, vm_error, ExitCode option) M"
    by (simp add: bindM_def count_step_order [OF d(1) it that])
  note cong = bindM_cong_preserves [where I = sim_wf]
  note run = preserves_run_exec(1) [OF d(2)]
  show ?thesis
    unfolding step_def hashset_iter_unused
  proof (rule cong [OF preserves_getM wf], rule cong [OF read], assumption,
      rule cong [OF preserves_ok_or], assumption, rule cong [OF clear], assumption)
    fix insn u and t :: Simulator
    assume wf: "sim_wf t"
    show "(case get_opcode_cycle insn of
        Inl e \<Rightarrow> throw e
      | Inr oc \<Rightarrow>
          if is_ecall insn then
            bindM (ecall ext) (\<lambda>(new_pc, exit, extra_cycle).
            bindM (modM (set_pc new_pc)) (\<lambda>_.
            bindM (count_step ?e oc extra_cycle) (rest_ecall exit)))
          else bindM (run_exec ext) (\<lambda>_. bindM (count_step ?e oc 0) rest_exec)) t =
       (case get_opcode_cycle insn of
        Inl e \<Rightarrow> throw e
      | Inr oc \<Rightarrow>
          if is_ecall insn then
            bindM (ecall ext) (\<lambda>(new_pc, exit, extra_cycle).
            bindM (modM (set_pc new_pc)) (\<lambda>_.
            bindM (count_step ext oc extra_cycle) (rest_ecall exit)))
          else bindM (run_exec ext) (\<lambda>_. bindM (count_step ext oc 0) rest_exec)) t"
      for rest_exec :: "unit \<Rightarrow> (Simulator, vm_error, ExitCode option) M" and rest_ecall
    proof (cases "get_opcode_cycle insn"; cases "is_ecall insn"; simp only: sum.case if_True if_False)
      fix oc
      show "bindM (ecall ext) (\<lambda>(new_pc, exit, extra_cycle). bindM (modM (set_pc new_pc)) (\<lambda>_.
          bindM (count_step ?e oc extra_cycle) (rest_ecall exit))) t =
        bindM (ecall ext) (\<lambda>(new_pc, exit, extra_cycle). bindM (modM (set_pc new_pc)) (\<lambda>_.
          bindM (count_step ext oc extra_cycle) (rest_ecall exit))) t"
        by (rule cong [OF ecall wf]) (auto intro: cong [OF jump] cnt)
      show "bindM (run_exec ext) (\<lambda>_. bindM (count_step ?e oc 0) rest_exec) t =
          bindM (run_exec ext) (\<lambda>_. bindM (count_step ext oc 0) rest_exec) t"
        by (rule cong [OF run wf]) (rule cnt)
    qed
  qed
qed

text \<open>
  Property C24. The order in which the standard library enumerates the pages a step has touched is
  not observable: with any other order the step has the same outcome and the same state.
\<close>

theorem step_order_irrelevant:
  assumes "externs_documented ext" and "enumerates it" and "sim_wf s"
  shows "step (ext\<lparr>hashset_iter := it\<rparr>) s = step ext s"
  using assms by (rule step_order)

end
