(* ===== verification/Event_Loop.thy ===== *)
theory Event_Loop
  imports Debugger Ecall
begin

text \<open>
  The event loop of \<open>src/debug/debugger.rs\<close>, which runs the program until something is to be
  reported to the client, and the run to completion after the client has gone
  (\<open>src/debug/mod.rs\<close>).
\<close>

section \<open>Events\<close>

datatype signal = SIGINT | EXC_BAD_ACCESS

datatype stop_reason =
    DoneStep
  | SignalStop signal
  | Exited u8
  | Terminated signal
  | SwBreak
  | Watch WatchKind u32

datatype event = IncomingData u8 | TargetStopped stop_reason

datatype wait_error = ConnectionError

text \<open>
  The connection to the client is a parameter: looking for a byte without waiting (\<open>None\<close> is an
  error, \<open>Some None\<close> no byte) and reading one (\<open>None\<close> is an error).
\<close>

record 'c conn =
  conn_peek :: "'c \<Rightarrow> u8 option option \<times> 'c"
  conn_read :: "'c \<Rightarrow> u8 option \<times> 'c"

type_synonym ('c, 'a) ev = "(Debugger \<times> 'c, wait_error, 'a) M"

text \<open>An error of the look counts as incoming data.\<close>

definition poll_incoming_data :: "'c conn \<Rightarrow> ('c, bool) ev" where
  "poll_incoming_data ops = (\<lambda>(d, c).
     case conn_peek ops c of
       (r, c') \<Rightarrow> (Ok (case r of None \<Rightarrow> True | Some b \<Rightarrow> b \<noteq> None), (d, c')))"

definition read_incoming :: "'c conn \<Rightarrow> ('c, event) ev" where
  "read_incoming ops = (\<lambda>(d, c).
     case conn_read ops c of
       (None, c') \<Rightarrow> (Err ConnectionError, (d, c'))
     | (Some b, c') \<Rightarrow> (Ok (IncomingData b), (d, c')))"

text \<open>One step of the program; an error of it is a value here.\<close>

definition run_step :: "externs \<Rightarrow> ('c, vm_error + ExitCode option) ev" where
  "run_step ext = (\<lambda>(d, c).
     case step ext (simulator d) of
       (r, s) \<Rightarrow>
         (case r of
            Ok x \<Rightarrow> Ok (Inr x)
          | Err e \<Rightarrow> Ok (Inl e)
          | Panic p \<Rightarrow> Panic p
          | Hang \<Rightarrow> Hang,
          (d\<lparr>simulator := s\<rparr>, c)))"

fun report :: "ExitCode \<Rightarrow> stop_reason" where
  "report (Paused _) = SwBreak"
| "report (Halted reason) = Exited (ucast reason)"
| "report (HwWatchPoint kind addr) = Watch kind addr"

definition at_breakpoint :: "Debugger \<Rightarrow> bool" where
  "at_breakpoint d \<longleftrightarrow> pc (hart_state (simulator d)) \<in> breakpoints d"

section \<open>Waiting for a stop\<close>

definition wait_step :: "externs \<Rightarrow> 'c conn \<Rightarrow> ('c, event) ev" where
  "wait_step ext ops =
     bindM (poll_incoming_data ops) (\<lambda>data.
     if data then read_incoming ops
     else
       bindM (run_step ext) (\<lambda>res.
       case res of
         Inl _ \<Rightarrow> ret (TargetStopped (Terminated EXC_BAD_ACCESS))
       | Inr None \<Rightarrow>
           bindM (getM (at_breakpoint \<circ> fst)) (\<lambda>b.
           ret (TargetStopped (if b then SwBreak else DoneStep)))
       | Inr (Some x) \<Rightarrow> ret (TargetStopped (report x))))"

text \<open>
  The loop of the two running modes, which differ in what they check after a step that reports
  nothing. \<open>cycles\<close> is an \<open>i32\<close>: the increment panics at \<open>2 ^ 31 - 1\<close>. The connection is
  looked at every 1024 steps.
\<close>

function run_loop ::
    "externs \<Rightarrow> 'c conn \<Rightarrow> (Debugger \<Rightarrow> stop_reason option) \<Rightarrow> nat \<Rightarrow> ('c, event) ev" where
  "run_loop ext ops check cycles =
     bindM (if cycles mod 1024 = 0 then poll_incoming_data ops else ret False) (\<lambda>data.
     if data then read_incoming ops
     else if cycles + 1 \<ge> 2 ^ 31 then panicM ArithOverflow
     else
       bindM (run_step ext) (\<lambda>res.
       case res of
         Inl _ \<Rightarrow> ret (TargetStopped (Terminated EXC_BAD_ACCESS))
       | Inr (Some x) \<Rightarrow> ret (TargetStopped (report x))
       | Inr None \<Rightarrow>
           bindM (getM (check \<circ> fst)) (\<lambda>stop.
           case stop of
             Some r \<Rightarrow> ret (TargetStopped r)
           | None \<Rightarrow> run_loop ext ops check (cycles + 1))))"
  by pat_completeness auto
termination
  by (relation "measure (\<lambda>(_, _, _, cycles). 2 ^ 31 - cycles)") auto

declare run_loop.simps [simp del]

definition continue_check :: "Debugger \<Rightarrow> stop_reason option" where
  "continue_check d = (if at_breakpoint d then Some SwBreak else None)"

definition range_check :: "u32 \<Rightarrow> u32 \<Rightarrow> Debugger \<Rightarrow> stop_reason option" where
  "range_check start end_addr d =
     (let p = pc (hart_state (simulator d))
      in if \<not> (start \<le> p \<and> p < end_addr) then Some DoneStep
         else if at_breakpoint d then Some SwBreak
         else None)"

definition wait_interrupted :: "'c conn \<Rightarrow> ('c, event) ev" where
  "wait_interrupted ops =
     bindM (poll_incoming_data ops) (\<lambda>data.
     if data then read_incoming ops
     else ret (TargetStopped (SignalStop SIGINT)))"

text \<open>The modes \<open>Continue\<close> and \<open>RangeStep\<close>.\<close>

definition wait_continue :: "externs \<Rightarrow> 'c conn \<Rightarrow> ('c, event) ev" where
  "wait_continue ext ops = run_loop ext ops continue_check 0"

definition wait_range_step :: "externs \<Rightarrow> 'c conn \<Rightarrow> u32 \<Rightarrow> u32 \<Rightarrow> ('c, event) ev" where
  "wait_range_step ext ops start end_addr = run_loop ext ops (range_check start end_addr) 0"

definition wait_for_stop_reason :: "externs \<Rightarrow> 'c conn \<Rightarrow> ('c, event) ev" where
  "wait_for_stop_reason ext ops =
     bindM (getM (exec_mode \<circ> fst)) (\<lambda>mode.
     case mode of
       Step \<Rightarrow> wait_step ext ops
     | Continue \<Rightarrow> wait_continue ext ops
     | RangeStep start end_addr \<Rightarrow> wait_range_step ext ops start end_addr
     | Interrupted \<Rightarrow> wait_interrupted ops)"

lemmas wait_defs = wait_for_stop_reason_def wait_continue_def wait_range_step_def

definition on_interrupt :: "stop_reason option dbg" where
  "on_interrupt =
     bindM (set_exec_mode Interrupted) (\<lambda>_. ret (Some (SignalStop SIGINT)))"

section \<open>Running to completion\<close>

datatype run_end = RunError vm_error | RunPaused u32 | RunHalted u32

text \<open>The program need not end: \<open>None\<close> is "does not return".\<close>

partial_function (option) run_to_completion ::
    "externs \<Rightarrow> Simulator \<Rightarrow> ((panic + run_end) \<times> Simulator) option" where
  "run_to_completion ext s =
     (case step ext s of
        (Hang, s') \<Rightarrow> None
      | (Panic p, s') \<Rightarrow> Some (Inl p, s')
      | (Err e, s') \<Rightarrow> Some (Inr (RunError e), s')
      | (Ok x, s') \<Rightarrow>
          (case x of
             Some (Paused code) \<Rightarrow> Some (Inr (RunPaused code), s')
           | Some (Halted code) \<Rightarrow> Some (Inr (RunHalted code), s')
           | Some (HwWatchPoint k a) \<Rightarrow> run_to_completion ext s'
           | None \<Rightarrow> run_to_completion ext s'))"

datatype DisconnectReason = Disconnect | TargetExited u8 | TargetTerminated signal | Kill

text \<open>
  An error of the stub comes from the target, from the connection (with the kind of the failed
  operation), or from the protocol.
\<close>

datatype stub_error =
    TargetFailed string
  | ConnectionFailed string string
  | ProtocolFailed string

text \<open>What is printed at the end of the debugging session.\<close>

datatype takeover_msg =
    CompletionMsg run_end
  | ExitedMsg u8
  | TerminatedMsg signal
  | KilledMsg
  | StubErrorMsg stub_error

text \<open>
  Waiting for the client. The network is a parameter: whether a port of the local address can be
  bound, and the address of the peer that is accepted on it. The announcements go to the standard
  error stream.
\<close>

record net =
  tcp_bind :: "nat \<Rightarrow> bool"
  tcp_accept :: "nat \<Rightarrow> string option"

datatype takeover_error = BindFailed | AcceptFailed

datatype tcp_msg = WaitingMsg nat | ConnectedMsg string

definition wait_for_tcp :: "net \<Rightarrow> nat \<Rightarrow> (tcp_msg list, takeover_error, unit) M" where
  "wait_for_tcp net port =
     bindM (modM (\<lambda>l. l @ [WaitingMsg port])) (\<lambda>_.
     if \<not> tcp_bind net port then throw BindFailed
     else
       bindM (ok_or AcceptFailed (tcp_accept net port)) (\<lambda>addr.
       modM (\<lambda>l. l @ [ConnectedMsg addr])))"

definition connects :: "net \<Rightarrow> bool" where
  "connects net \<longleftrightarrow> tcp_bind net 9000 \<and> tcp_accept net 9000 \<noteq> None"

text \<open>
  The session itself is driven by the protocol stub: \<open>gdb_run\<close>, a parameter, is its
  \<open>run_blocking\<close>, an error of which is only printed.
\<close>

definition debugger_takeover ::
    "externs \<Rightarrow> net \<Rightarrow> (Debugger, stub_error, DisconnectReason) M \<Rightarrow> u8 list
     \<Rightarrow> (Simulator, takeover_error, takeover_msg) M" where
  "debugger_takeover ext net gdb_run elf_data s =
     (case fst (wait_for_tcp net 9000 []) of
        Err e \<Rightarrow> (Err e, s)
      | Panic p \<Rightarrow> (Panic p, s)
      | Hang \<Rightarrow> (Hang, s)
      | Ok _ \<Rightarrow>
        (case gdb_run \<lparr>elf = elf_data, simulator = s, exec_mode = Continue, breakpoints = {}\<rparr> of
           (r, d) \<Rightarrow>
             (case r of
                Ok Disconnect \<Rightarrow>
                  (case run_to_completion ext (simulator d) of
                     None \<Rightarrow> (Hang, simulator d)
                   | Some (Inl p, s') \<Rightarrow> (Panic p, s')
                   | Some (Inr e, s') \<Rightarrow> (Ok (CompletionMsg e), s'))
              | Ok (TargetExited code) \<Rightarrow> (Ok (ExitedMsg code), simulator d)
              | Ok (TargetTerminated sig) \<Rightarrow> (Ok (TerminatedMsg sig), simulator d)
              | Ok Kill \<Rightarrow> (Ok KilledMsg, simulator d)
              | Err e \<Rightarrow> (Ok (StubErrorMsg e), simulator d)
              | Panic p \<Rightarrow> (Panic p, simulator d)
              | Hang \<Rightarrow> (Hang, simulator d))))"

lemma wait_for_tcp_outcome:
  "fst (wait_for_tcp net 9000 l) =
     (if connects net then Ok () else Err (if tcp_bind net 9000 then AcceptFailed else BindFailed))"
  by (auto simp: wait_for_tcp_def connects_def bindM_run throw_def modM_def)

section \<open>Runs of the program\<close>

text \<open>
  The abstract view of a run: \<open>n\<close> steps that report nothing and after each of which the check
  finds nothing, and the step that ends the run, with the reason it gives.
\<close>

definition with_sim :: "Simulator \<Rightarrow> Debugger \<Rightarrow> Debugger" where
  "with_sim s d = d\<lparr>simulator := s\<rparr>"

primrec quiet :: "externs \<Rightarrow> (Debugger \<Rightarrow> stop_reason option) \<Rightarrow> nat \<Rightarrow> Debugger \<Rightarrow> Debugger \<Rightarrow> bool" where
  "quiet ext check 0 d d' \<longleftrightarrow> d' = d"
| "quiet ext check (Suc n) d d' \<longleftrightarrow>
     (\<exists>s. step ext (simulator d) = (Ok None, s) \<and> check (with_sim s d) = None \<and>
          quiet ext check n (with_sim s d) d')"

inductive stops :: "externs \<Rightarrow> (Debugger \<Rightarrow> stop_reason option) \<Rightarrow> Debugger \<Rightarrow> stop_reason \<Rightarrow> Debugger \<Rightarrow> bool"
  for ext check where
  stops_error: "step ext (simulator d) = (Err e, s) \<Longrightarrow>
     stops ext check d (Terminated EXC_BAD_ACCESS) (with_sim s d)"
| stops_paused: "step ext (simulator d) = (Ok (Some (Paused code)), s) \<Longrightarrow> stops ext check d SwBreak (with_sim s d)"
| stops_halted: "step ext (simulator d) = (Ok (Some (Halted code)), s) \<Longrightarrow>
     stops ext check d (Exited (ucast code)) (with_sim s d)"
| stops_watch: "step ext (simulator d) = (Ok (Some (HwWatchPoint kind addr)), s) \<Longrightarrow>
     stops ext check d (Watch kind addr) (with_sim s d)"
| stops_check: "step ext (simulator d) = (Ok None, s) \<Longrightarrow> check (with_sim s d) = Some r \<Longrightarrow>
     stops ext check d r (with_sim s d)"

inductive_cases stopsE: "stops ext check d r d'"

lemma stops_report: "step ext (simulator d) = (Ok (Some x), s) \<Longrightarrow> stops ext check d (report x) (with_sim s d)"
  by (cases x) (auto intro: stops.intros)

text \<open>What ends a run after a step that reports nothing, in the two running modes.\<close>

definition hits_breakpoint :: "Debugger \<Rightarrow> stop_reason option" where
  "hits_breakpoint d = (if pc (hart_state (simulator d)) \<in> breakpoints d then Some SwBreak else None)"

definition leaves_range :: "u32 \<Rightarrow> u32 \<Rightarrow> Debugger \<Rightarrow> stop_reason option" where
  "leaves_range a b d =
     (if pc (hart_state (simulator d)) < a \<or> b \<le> pc (hart_state (simulator d)) then Some DoneStep
      else hits_breakpoint d)"

lemma checks_spec: "continue_check = hits_breakpoint" "range_check a b = leaves_range a b"
  by (auto simp: fun_eq_iff continue_check_def range_check_def hits_breakpoint_def leaves_range_def
      at_breakpoint_def Let_def not_less not_le)

text \<open>A connection on which nothing arrives.\<close>

definition silent :: "'c conn \<Rightarrow> 'c \<Rightarrow> bool" where
  "silent ops c \<longleftrightarrow> conn_peek ops c = (Some None, c)"

lemma poll_silent: "silent ops c \<Longrightarrow> poll_incoming_data ops (d, c) = (Ok False, (d, c))"
  by (simp add: silent_def poll_incoming_data_def)

lemma read_incoming_no_stop: "read_incoming ops dc \<noteq> (Ok (TargetStopped r), dc')"
  by (auto simp: read_incoming_def split: prod.splits option.splits)

lemma run_step_eq:
  "run_step ext (d, c) = (case step ext (simulator d) of (r, s) \<Rightarrow>
     (case r of Ok x \<Rightarrow> Ok (Inr x) | Err e \<Rightarrow> Ok (Inl e) | Panic p \<Rightarrow> Panic p | Hang \<Rightarrow> Hang, (with_sim s d, c)))"
  by (simp add: run_step_def with_sim_def split: prod.split)

lemma poll_state: "\<exists>r c'. poll_incoming_data ops (d, c) = (Ok r, (d, c'))"
  by (simp add: poll_incoming_data_def split: prod.split)

text \<open>One turn of the loop, once the connection has been looked at.\<close>

lemma run_loop_turn:
  assumes "(if cycles mod 1024 = 0 then poll_incoming_data ops else ret False) (d, c) = (Ok b, (d, c'))"
  shows "run_loop ext ops check cycles (d, c) =
    (if b then read_incoming ops (d, c')
     else if cycles + 1 \<ge> 2 ^ 31 then (Panic ArithOverflow, (d, c'))
     else (case step ext (simulator d) of
         (Err e, s) \<Rightarrow> (Ok (TargetStopped (Terminated EXC_BAD_ACCESS)), (with_sim s d, c'))
       | (Panic p, s) \<Rightarrow> (Panic p, (with_sim s d, c'))
       | (Hang, s) \<Rightarrow> (Hang, (with_sim s d, c'))
       | (Ok (Some x), s) \<Rightarrow> (Ok (TargetStopped (report x)), (with_sim s d, c'))
       | (Ok None, s) \<Rightarrow>
           (case check (with_sim s d) of
              Some r \<Rightarrow> (Ok (TargetStopped r), (with_sim s d, c'))
            | None \<Rightarrow> run_loop ext ops check (cycles + 1) (with_sim s d, c'))))"
proof -
  have unfold: "run_loop ext ops check cycles (d, c) =
     (if b then read_incoming ops
      else if cycles + 1 \<ge> 2 ^ 31 then panicM ArithOverflow
      else bindM (run_step ext) (\<lambda>res.
       case res of
         Inl _ \<Rightarrow> ret (TargetStopped (Terminated EXC_BAD_ACCESS))
       | Inr (Some x) \<Rightarrow> ret (TargetStopped (report x))
       | Inr None \<Rightarrow>
           bindM (getM (check \<circ> fst)) (\<lambda>stop.
           case stop of
             Some r \<Rightarrow> ret (TargetStopped r)
           | None \<Rightarrow> run_loop ext ops check (cycles + 1)))) (d, c')"
    by (subst run_loop.simps, subst bindM_def) (simp only: assms prod.case outcome.case)
  show ?thesis
  proof (cases "b \<or> cycles + 1 \<ge> 2 ^ 31")
    case True
    then show ?thesis unfolding unfold by (auto simp: panicM_def)
  next
    case False
    obtain r s where st: "step ext (simulator d) = (r, s)" by fastforce
    show ?thesis
    proof (cases r)
      case (Ok x)
      with False st show ?thesis
        unfolding unfold
        by (cases x; cases "check (with_sim s d)") (simp_all add: bindM_def [of "run_step ext"] run_step_eq bindM_getM ret_def)
    qed (use False st in \<open>simp_all add: unfold bindM_def run_step_eq ret_def\<close>)
  qed
qed

lemma run_loop_quiet_stops:
  assumes "silent ops c" and "quiet ext check n d d1" and "stops ext check d1 r d'"
    and "cycles + n + 1 < 2 ^ 31"
  shows "run_loop ext ops check cycles (d, c) = (Ok (TargetStopped r), (d', c))"
  using assms(2,4)
proof (induction n arbitrary: cycles d)
  case 0
  have "(if cycles mod 1024 = 0 then poll_incoming_data ops else ret False) (d, c) = (Ok False, (d, c))"
    using poll_silent [OF assms(1)] by (simp add: ret_def)
  note turn = run_loop_turn [OF this, of ext check]
  from 0 have "d1 = d" "cycles + 1 < 2 ^ 31" by auto
  with assms(3) show ?case unfolding turn by (auto elim!: stopsE)
next
  case (Suc n)
  then obtain s where s: "step ext (simulator d) = (Ok None, s)" "check (with_sim s d) = None"
    "quiet ext check n (with_sim s d) d1" by auto
  have "(if cycles mod 1024 = 0 then poll_incoming_data ops else ret False) (d, c) = (Ok False, (d, c))"
    using poll_silent [OF assms(1)] by (simp add: ret_def)
  note turn = run_loop_turn [OF this, of ext check]
  from Suc.IH [OF s(3), of "cycles + 1"] Suc.prems(2) show ?case
    unfolding turn using s(1,2) by simp
qed

lemma run_loop_stopped:
  assumes "run_loop ext ops check cycles (d, c) = (Ok (TargetStopped r), (d', c'))"
  shows "\<exists>n d1. quiet ext check n d d1 \<and> stops ext check d1 r d' \<and> cycles + n + 1 < 2 ^ 31"
  using assms
proof (induction "2 ^ 31 - cycles" arbitrary: cycles d c rule: less_induct)
  case less
  obtain b c1 where p: "(if cycles mod 1024 = 0 then poll_incoming_data ops else ret False) (d, c) = (Ok b, (d, c1))"
    using poll_state [of ops d c] by (cases "cycles mod 1024 = 0") (auto simp: ret_def)
  note run = less.prems [unfolded run_loop_turn [OF p]]
  have nb: "\<not> b" "cycles + 1 < 2 ^ 31" using run by (auto simp: read_incoming_no_stop split: if_splits)
  obtain rr s where st: "step ext (simulator d) = (rr, s)" by fastforce
  show ?case
  proof (cases "rr = Ok None \<and> check (with_sim s d) = None")
    case False
    with nb st run have "stops ext check d r d'"
      by (auto split: outcome.splits option.splits intro: stops.intros stops_report)
    with nb show ?thesis by (intro exI [of _ 0] exI [of _ d]) simp
  next
    case True
    with nb st run have again: "run_loop ext ops check (cycles + 1) (with_sim s d, c1) = (Ok (TargetStopped r), (d', c'))"
      by simp
    have "2 ^ 31 - (cycles + 1) < 2 ^ 31 - cycles" using nb by simp
    from less.hyps [OF this again] obtain n d1 where
      "quiet ext check n (with_sim s d) d1" "stops ext check d1 r d'" "cycles + 1 + n + 1 < 2 ^ 31" by blast
    with True st show ?thesis by (intro exI [of _ "Suc n"] exI [of _ d1]) auto
  qed
qed

lemma run_loop_overflows:
  assumes "silent ops c" and "quiet ext check n d d1" and "cycles + n = 2 ^ 31 - 1"
  shows "run_loop ext ops check cycles (d, c) = (Panic ArithOverflow, (d1, c))"
  using assms(2,3)
proof (induction n arbitrary: cycles d)
  case 0
  have "(if cycles mod 1024 = 0 then poll_incoming_data ops else ret False) (d, c) = (Ok False, (d, c))"
    using poll_silent [OF assms(1)] by (simp add: ret_def)
  from run_loop_turn [OF this, of ext check] 0 show ?case by simp
next
  case (Suc n)
  then obtain s where s: "step ext (simulator d) = (Ok None, s)" "check (with_sim s d) = None"
    "quiet ext check n (with_sim s d) d1" by auto
  have "(if cycles mod 1024 = 0 then poll_incoming_data ops else ret False) (d, c) = (Ok False, (d, c))"
    using poll_silent [OF assms(1)] by (simp add: ret_def)
  note turn = run_loop_turn [OF this, of ext check]
  from Suc.IH [OF s(3), of "cycles + 1"] Suc.prems(2) show ?case
    unfolding turn using s(1,2) by simp
qed

section \<open>What every run keeps\<close>

locale machine =
  fixes ext :: externs and inv :: "Simulator \<Rightarrow> bool"
  assumes step_inv: "inv s \<Longrightarrow> inv (snd (step ext s))"
begin

lemma run_step_inv: "inv (simulator d) \<Longrightarrow> inv (simulator (fst (snd (run_step ext (d, c)))))"
  using step_inv [of "simulator d"] by (auto simp: run_step_eq with_sim_def split: prod.splits)

lemma preserves_run_step: "preserves (\<lambda>(d, c :: 'c). inv (simulator d)) (run_step ext)"
  unfolding preserves_def
proof (intro allI impI)
  fix t :: "Debugger \<times> 'c" assume "case t of (d, c) \<Rightarrow> inv (simulator d)"
  then show "case snd (run_step ext t) of (d, c) \<Rightarrow> inv (simulator d)"
    using run_step_inv [of "fst t" "snd t"] by (auto simp: case_prod_beta)
qed

lemma preserves_poll: "preserves (\<lambda>(d, c). inv (simulator d)) (poll_incoming_data ops)"
  by (auto simp: preserves_def poll_incoming_data_def split: prod.split)

lemma preserves_read_incoming: "preserves (\<lambda>(d, c). inv (simulator d)) (read_incoming ops)"
  by (auto simp: preserves_def read_incoming_def split: prod.split option.split)

lemma preserves_run_loop: "preserves (\<lambda>(d, c). inv (simulator d)) (run_loop ext ops check cycles)"
proof (induction "2 ^ 31 - cycles" arbitrary: cycles rule: less_induct)
  case less
  show ?case
  proof (cases "cycles + 1 \<ge> 2 ^ 31")
    case True
    then show ?thesis
      by (subst run_loop.simps) (auto intro!: preserves_bindM preserves_poll preserves_read_incoming)
  next
    case False
    then have "preserves (\<lambda>(d, c). inv (simulator d)) (run_loop ext ops check (cycles + 1))"
      by (intro less.hyps) simp
    then show ?thesis
      by (subst run_loop.simps)
        (auto intro!: preserves_bindM preserves_poll preserves_read_incoming preserves_run_step
          split: sum.split option.split)
  qed
qed

lemma preserves_wait: "preserves (\<lambda>(d, c). inv (simulator d)) (wait_for_stop_reason ext ops)"
  unfolding wait_defs wait_step_def wait_interrupted_def
  by (auto intro!: preserves_bindM preserves_poll preserves_read_incoming preserves_run_step preserves_run_loop
      split: sum.split option.split ExecMode.split)

lemma run_to_completion_inv:
  assumes "run_to_completion ext s = Some (r, s')" and "inv s"
  shows "inv s'"
proof -
  have "ext' = ext \<longrightarrow> inv t0 \<longrightarrow> inv (snd y)" if "run_to_completion ext' t0 = Some y" for ext' t0 y
    using that
  proof (rule run_to_completion.raw_induct [rotated])
    fix f ext' t0 and y :: "(panic + run_end) \<times> Simulator"
    assume IH: "\<And>ext' t0 y. f ext' t0 = Some y \<Longrightarrow> ext' = ext \<longrightarrow> inv t0 \<longrightarrow> inv (snd y)"
      and eq: "(case step ext' t0 of
        (Hang, s') \<Rightarrow> None
      | (Panic p, s') \<Rightarrow> Some (Inl p, s')
      | (Err e, s') \<Rightarrow> Some (Inr (RunError e), s')
      | (Ok x, s') \<Rightarrow>
          (case x of
             Some (Paused code) \<Rightarrow> Some (Inr (RunPaused code), s')
           | Some (Halted code) \<Rightarrow> Some (Inr (RunHalted code), s')
           | Some (HwWatchPoint k a) \<Rightarrow> f ext' s'
           | None \<Rightarrow> f ext' s')) = Some y"
    show "ext' = ext \<longrightarrow> inv t0 \<longrightarrow> inv (snd y)"
    proof (intro impI)
      assume e: "ext' = ext" and i: "inv t0"
      obtain r s1 where st: "step ext t0 = (r, s1)" by fastforce
      with step_inv [OF i] have "inv s1" by simp
      with eq e st IH show "inv (snd y)"
        by (auto split: outcome.splits option.splits ExitCode.splits)
    qed
  qed
  from this [OF assms(1)] assms(2) show ?thesis by simp
qed

end

text \<open>The simulator, with libraries that do what they document, is such a machine.\<close>

interpretation sim_machine: machine ext "\<lambda>s. externs_documented ext \<longrightarrow> sim_wf s" for ext
  using preserves_step [of ext] by unfold_locales (auto simp: preserves_def)

section \<open>Properties\<close>

text \<open>
  Remark. However the program is run, step by step, up to a breakpoint, through a range of
  addresses or to its end, the invariant of the simulator holds when control is back with the
  client, whatever came of it.
\<close>

theorem waiting_keeps_invariant:
  assumes "externs_documented ext" and "dbg_wf d" and "wait_for_stop_reason ext ops (d, c) = (r, (d', c'))"
  shows "dbg_wf d'"
  using preservesD [OF sim_machine.preserves_wait [of ext ops] _ assms(3)] assms(1,2)
  by (simp add: dbg_wf_def)

text \<open>
  Property C13. Continuing is exact: with nothing arriving from the client, it ends with the first
  step that fails, exits or reports a watchpoint, or leaves the program at a breakpoint, with the
  reason for it and the state after that step. (The loop's counter allows \<open>2 ^ 31 - 1\<close> steps.)
\<close>

theorem continue_runs_to_first_stop:
  assumes "silent ops c" and "exec_mode d = Continue" and "quiet ext hits_breakpoint n d d1"
    and "stops ext hits_breakpoint d1 r d'" and "n + 1 < 2 ^ 31"
  shows "wait_for_stop_reason ext ops (d, c) = (Ok (TargetStopped r), (d', c))"
  using run_loop_quiet_stops [OF assms(1,3,4), of 0] assms(2,5)
  by (simp add: wait_defs bindM_getM checks_spec)

text \<open>
  Property C12. Conversely no stop is invented or passed over: when continuing reports a stop,
  whatever arrives meanwhile, every step before the last one reported nothing and did not leave
  the program at a breakpoint, and the last step gives the reason.
\<close>

theorem continue_stop_is_genuine:
  assumes "exec_mode d = Continue"
    and "wait_for_stop_reason ext ops (d, c) = (Ok (TargetStopped r), (d', c'))"
  shows "\<exists>n d1. quiet ext hits_breakpoint n d d1 \<and> stops ext hits_breakpoint d1 r d'"
  using run_loop_stopped [of ext ops hits_breakpoint 0 d c r d' c'] assms
  by (auto simp: wait_defs bindM_getM checks_spec)

text \<open>
  Property C32. Stepping through a range, in both directions. A stop that is reported, whatever
  arrives meanwhile, is genuine: every step before the last one reported nothing and left the
  program in the range and off the breakpoints, and the last step gives the reason; it is
  \<open>DoneStep\<close> exactly when that step reports nothing and leaves the range, even onto a breakpoint.
  Conversely, with nothing arriving from the client, the first step that fails, exits or reports a
  watchpoint, or leaves the range, or leads onto a breakpoint, ends the wait with its reason and
  the state after it, when it is one of the \<open>2 ^ 31 - 1\<close> steps that the loop's counter allows.
\<close>

theorem range_step_exact:
  assumes "exec_mode d = RangeStep a b"
  shows "(wait_for_stop_reason ext ops (d, c) = (Ok (TargetStopped r), (d', c')) \<longrightarrow>
       (\<exists>n d1. quiet ext (leaves_range a b) n d d1 \<and> stops ext (leaves_range a b) d1 r d' \<and> n + 1 < 2 ^ 31 \<and>
         (r = DoneStep \<longleftrightarrow> (\<exists>s. step ext (simulator d1) = (Ok None, s) \<and>
            (pc (hart_state s) < a \<or> b \<le> pc (hart_state s)))))) \<and>
     (silent ops c \<and> quiet ext (leaves_range a b) n d d1 \<and> stops ext (leaves_range a b) d1 r d' \<and> n + 1 < 2 ^ 31 \<longrightarrow>
       wait_for_stop_reason ext ops (d, c) = (Ok (TargetStopped r), (d', c)))"
proof (intro conjI impI)
  assume "wait_for_stop_reason ext ops (d, c) = (Ok (TargetStopped r), (d', c'))"
  then obtain n d1 where q: "quiet ext (leaves_range a b) n d d1" "stops ext (leaves_range a b) d1 r d'"
    "n + 1 < 2 ^ 31"
    using run_loop_stopped [of ext ops "leaves_range a b" 0 d c r d' c'] assms
    by (auto simp: wait_defs bindM_getM checks_spec)
  have "r = DoneStep \<longleftrightarrow> (\<exists>s. step ext (simulator d1) = (Ok None, s) \<and>
        (pc (hart_state s) < a \<or> b \<le> pc (hart_state s)))"
    using q(2) by (auto elim!: stopsE simp: leaves_range_def hits_breakpoint_def with_sim_def split: if_splits)
  with q show "\<exists>n d1. quiet ext (leaves_range a b) n d d1 \<and> stops ext (leaves_range a b) d1 r d' \<and> n + 1 < 2 ^ 31 \<and>
     (r = DoneStep \<longleftrightarrow> (\<exists>s. step ext (simulator d1) = (Ok None, s) \<and>
        (pc (hart_state s) < a \<or> b \<le> pc (hart_state s))))" by blast
next
  assume "silent ops c \<and> quiet ext (leaves_range a b) n d d1 \<and> stops ext (leaves_range a b) d1 r d' \<and> n + 1 < 2 ^ 31"
  then show "wait_for_stop_reason ext ops (d, c) = (Ok (TargetStopped r), (d', c))"
    using run_loop_quiet_stops [of ops c ext "leaves_range a b" n d d1 r d' 0] assms
    by (simp add: wait_defs bindM_getM checks_spec)
qed

text \<open>
  Property C38 (a flaw). The step counter of the two running modes is a 32-bit signed integer. When
  nothing arrives from the client and the program runs for \<open>2 ^ 31 - 1\<close> steps that report nothing,
  and meets no breakpoint, and when it steps through a range does not leave it, the debugger panics.
\<close>

theorem continue_overflows:
  assumes "silent ops c"
    and "(exec_mode d = Continue \<and> quiet ext hits_breakpoint (2 ^ 31 - 1) d d1) \<or>
      (exec_mode d = RangeStep a b \<and> quiet ext (leaves_range a b) (2 ^ 31 - 1) d d1)"
  shows "wait_for_stop_reason ext ops (d, c) = (Panic ArithOverflow, (d1, c))"
proof -
  have "run_loop ext ops check 0 (d, c) = (Panic ArithOverflow, (d1, c))"
    if "quiet ext check (2 ^ 31 - 1) d d1" for check
    using run_loop_overflows [OF assms(1) that, of 0] by simp
  with assms(2) show ?thesis by (auto simp: wait_defs bindM_getM checks_spec)
qed

text \<open>
  Remark. A single step executes one instruction and reports what came of it: the error as a
  fault, the exit or watchpoint, a breakpoint under the new program counter, or that it is done.
\<close>

theorem single_step_is_one_step:
  assumes "silent ops c" and "exec_mode d = Step" and "step ext (simulator d) = (res, s)"
  shows "wait_for_stop_reason ext ops (d, c) =
    (case res of
       Ok None \<Rightarrow> Ok (TargetStopped (if pc (hart_state s) \<in> breakpoints d then SwBreak else DoneStep))
     | Ok (Some x) \<Rightarrow> Ok (TargetStopped (report x))
     | Err _ \<Rightarrow> Ok (TargetStopped (Terminated EXC_BAD_ACCESS))
     | Panic p \<Rightarrow> Panic p
     | Hang \<Rightarrow> Hang, (with_sim s d, c))"
  using assms(2,3) poll_silent [OF assms(1), of d]
  by (auto simp: wait_defs bindM_getM wait_step_def bindM_def [of "poll_incoming_data ops"]
      bindM_def [of "run_step ext"] run_step_eq ret_def at_breakpoint_def with_sim_def
      split: outcome.split option.split)

text \<open>
  Remark. A byte from the client that is already there is served before the program runs:
  in every mode the wait returns it, and the program has not moved.
\<close>

theorem pending_byte_served_first:
  assumes "conn_peek ops c = (Some (Some b), c1)" and "conn_read ops c1 = (Some b', c2)"
  shows "wait_for_stop_reason ext ops (d, c) = (Ok (IncomingData b'), (d, c2))"
proof -
  have p: "poll_incoming_data ops (d, c) = (Ok True, (d, c1))" using assms(1) by (simp add: poll_incoming_data_def)
  have r: "read_incoming ops (d, c1) = (Ok (IncomingData b'), (d, c2))" using assms(2) by (simp add: read_incoming_def)
  have loop: "run_loop ext ops check 0 (d, c) = (Ok (IncomingData b'), (d, c2))" for check
    using run_loop_turn [of 0 ops d c True c1 ext check] p r by simp
  show ?thesis
    using loop by (cases "exec_mode d")
      (simp_all add: wait_defs bindM_getM wait_step_def wait_interrupted_def
        bindM_def [of "poll_incoming_data ops"] p r)
qed

section \<open>Running to completion\<close>

text \<open>\<open>n\<close> steps that report nothing, or only a watchpoint.\<close>

primrec runs_on :: "externs \<Rightarrow> nat \<Rightarrow> Simulator \<Rightarrow> Simulator \<Rightarrow> bool" where
  "runs_on ext 0 s s' \<longleftrightarrow> s' = s"
| "runs_on ext (Suc n) s s' \<longleftrightarrow>
     (\<exists>x t. step ext s = (Ok x, t) \<and> (x = None \<or> (\<exists>k a. x = Some (HwWatchPoint k a))) \<and> runs_on ext n t s')"

inductive run_ends :: "externs \<Rightarrow> Simulator \<Rightarrow> panic + run_end \<Rightarrow> Simulator \<Rightarrow> bool" for ext where
  "step ext s = (Err e, s') \<Longrightarrow> run_ends ext s (Inr (RunError e)) s'"
| "step ext s = (Panic p, s') \<Longrightarrow> run_ends ext s (Inl p) s'"
| "step ext s = (Ok (Some (Paused code)), s') \<Longrightarrow> run_ends ext s (Inr (RunPaused code)) s'"
| "step ext s = (Ok (Some (Halted code)), s') \<Longrightarrow> run_ends ext s (Inr (RunHalted code)) s'"

inductive_simps run_ends_iff: "run_ends ext s r s'"

lemma run_to_completion_runs:
  assumes "runs_on ext n s t" and "run_ends ext t r s'"
  shows "run_to_completion ext s = Some (r, s')"
  using assms(1)
proof (induction n arbitrary: s)
  case 0
  with assms(2) show ?case by (subst run_to_completion.simps) (auto simp: run_ends_iff)
next
  case (Suc n)
  then obtain x s1 where "step ext s = (Ok x, s1)" "x = None \<or> (\<exists>k a. x = Some (HwWatchPoint k a))"
    "runs_on ext n s1 t" by auto
  with Suc.IH show ?case by (subst run_to_completion.simps) auto
qed

lemma run_to_completion_ran:
  "run_to_completion ext s = Some y \<Longrightarrow> \<exists>n t. runs_on ext n s t \<and> run_ends ext t (fst y) (snd y)"
proof (erule run_to_completion.raw_induct [rotated])
  fix f ext s and y :: "(panic + run_end) \<times> Simulator"
  assume IH: "\<And>ext s y. f ext s = Some y \<Longrightarrow> \<exists>n t. runs_on ext n s t \<and> run_ends ext t (fst y) (snd y)"
    and eq: "(case step ext s of
        (Hang, s') \<Rightarrow> None
      | (Panic p, s') \<Rightarrow> Some (Inl p, s')
      | (Err e, s') \<Rightarrow> Some (Inr (RunError e), s')
      | (Ok x, s') \<Rightarrow>
          (case x of
             Some (Paused code) \<Rightarrow> Some (Inr (RunPaused code), s')
           | Some (Halted code) \<Rightarrow> Some (Inr (RunHalted code), s')
           | Some (HwWatchPoint k a) \<Rightarrow> f ext s'
           | None \<Rightarrow> f ext s')) = Some y"
  obtain r s1 where st: "step ext s = (r, s1)" by fastforce
  show "\<exists>n t. runs_on ext n s t \<and> run_ends ext t (fst y) (snd y)"
  proof (cases "\<exists>x. r = Ok x \<and> (x = None \<or> (\<exists>k a. x = Some (HwWatchPoint k a)))")
    case True
    then obtain x where x: "r = Ok x" "x = None \<or> (\<exists>k a. x = Some (HwWatchPoint k a))" by blast
    with eq st have "f ext s1 = Some y" by auto
    from IH [OF this] obtain n t where "runs_on ext n s1 t" "run_ends ext t (fst y) (snd y)" by blast
    with x st show ?thesis by (intro exI [of _ "Suc n"] exI [of _ t]) auto
  next
    case False
    with eq st have "run_ends ext s (fst y) (snd y)"
      by (auto simp: run_ends_iff split: outcome.splits option.splits ExitCode.splits)
    then show ?thesis by (intro exI [of _ 0] exI [of _ s]) simp
  qed
qed

text \<open>
  Property C14. After the client has gone the program runs on, past watchpoints, to the first step
  that pauses, exits or fails, and that is what is reported; if no step ever does, the run does
  not end.
\<close>

theorem run_to_completion_exact:
  "run_to_completion ext s = Some (r, s') \<longleftrightarrow> (\<exists>n t. runs_on ext n s t \<and> run_ends ext t r s')"
  using run_to_completion_ran [of ext s "(r, s')"] run_to_completion_runs by fastforce

end
