(* ===== verification/Loader.thy ===== *)
theory Loader
  imports Guest_Memory
begin

text \<open>
  The ELF loader of \<open>src/vm/loader.rs\<close>: the checks on the header and the segments, and the
  words that are written into the guest's memory.
\<close>

section \<open>The parsed file\<close>

text \<open>
  What the loader reads of the value that the \<open>elf\<close> library's \<open>minimal_parse\<close> returns; the
  parser itself is a parameter (\<open>None\<close> is its error).
\<close>

record segment =
  p_type :: u32
  p_filesz :: u64
  p_memsz :: u64
  p_vaddr :: u64
  p_offset :: u64

record elf_file =
  class_elf32 :: bool
  e_machine :: "16 word"
  e_type :: "16 word"
  e_entry :: u64
  segment_table :: "segment list option"

definition EM_RISCV :: "16 word" where "EM_RISCV = 243"
definition ET_EXEC :: "16 word" where "ET_EXEC = 2"
definition PT_LOAD :: u32 where "PT_LOAD = 1"

section \<open>Loading\<close>

text \<open>\<open>u32::try_from\<close> of a 64-bit value.\<close>

definition try_u32 :: "vm_error \<Rightarrow> u64 \<Rightarrow> (Memory, vm_error, u32) M" where
  "try_u32 e v = (if unat v < 2 ^ 32 then ret (ucast v) else throw e)"

text \<open>\<open>if b { bail!(e) }\<close>.\<close>

definition bail_if :: "bool \<Rightarrow> vm_error \<Rightarrow> (Memory, vm_error, unit) M" where
  "bail_if b e = (if b then throw e else ret ())"

text \<open>The loop over \<open>j\<close> that gathers the next word of the file.\<close>

primrec gather_word ::
    "u8 list \<Rightarrow> u32 \<Rightarrow> u32 \<Rightarrow> nat \<Rightarrow> nat \<Rightarrow> u32 \<Rightarrow> (Memory, vm_error, u32) M" where
  "gather_word input offset i j 0 word = ret word"
| "gather_word input offset i j (Suc n) word =
     bindM (add32 offset i) (\<lambda>t.
     bindM (add32 t (of_nat j)) (\<lambda>off.
     if length input \<le> unat off then throw InvalidSegmentOffset
     else gather_word input offset i (Suc j) n
            (word OR push_bit (j * 8) (ucast (input ! unat off)))))"

text \<open>The body of the loop over \<open>i\<close>, the offset of a word in its segment.\<close>

definition load_word_at ::
    "u8 list \<Rightarrow> u32 \<Rightarrow> u32 \<Rightarrow> u32 \<Rightarrow> u32 \<Rightarrow> (Memory, vm_error, unit) M" where
  "load_word_at input file_size vaddr offset i =
     bindM (ok_or InvalidSegmentVaddr (checked_add32 vaddr i)) (\<lambda>addr.
     bindM (bail_if (unat addr \<ge> GUEST_MAX_MEM) (AddressExceedsMax addr)) (\<lambda>_.
     if i \<ge> file_size then bindM (write_mem addr Word 0) (\<lambda>_. ret ())
     else
       bindM (gather_word input offset i 0 (min (unat (file_size - i)) 4) 0) (\<lambda>word.
       bindM (write_mem addr Word word) (\<lambda>_. ret ()))))"

primrec load_words ::
    "u8 list \<Rightarrow> u32 \<Rightarrow> u32 \<Rightarrow> u32 \<Rightarrow> u32 list \<Rightarrow> (Memory, vm_error, unit) M" where
  "load_words input file_size vaddr offset [] = ret ()"
| "load_words input file_size vaddr offset (i # is) =
     bindM (load_word_at input file_size vaddr offset i) (\<lambda>_.
     load_words input file_size vaddr offset is)"

text \<open>\<open>(0..n).step_by(4)\<close>.\<close>

definition step_by4 :: "u32 \<Rightarrow> u32 list" where
  "step_by4 n = map (\<lambda>k. of_nat (4 * k)) [0..<(unat n + 3) div 4]"

definition load_segment :: "u8 list \<Rightarrow> segment \<Rightarrow> (Memory, vm_error, unit) M" where
  "load_segment input seg =
     bindM (try_u32 FileSizeTooLarge (p_filesz seg)) (\<lambda>file_size.
     bindM (bail_if (unat file_size \<ge> GUEST_MAX_MEM) InvalidFileSize) (\<lambda>_.
     bindM (try_u32 MemSizeTooLarge (p_memsz seg)) (\<lambda>mem_size.
     bindM (bail_if (unat mem_size \<ge> GUEST_MAX_MEM) InvalidMemSize) (\<lambda>_.
     bindM (try_u32 VaddrTooLarge (p_vaddr seg)) (\<lambda>vaddr.
     bindM (bail_if (unat vaddr mod 4 \<noteq> 0) (VaddrUnaligned vaddr)) (\<lambda>_.
     bindM (try_u32 OffsetTooLarge (p_offset seg)) (\<lambda>offset.
     load_words input file_size vaddr offset (step_by4 mem_size))))))))"

primrec load_segments :: "u8 list \<Rightarrow> segment list \<Rightarrow> (Memory, vm_error, unit) M" where
  "load_segments input [] = ret ()"
| "load_segments input (seg # segs) =
     bindM (load_segment input seg) (\<lambda>_. load_segments input segs)"

definition load_elf :: "(u8 list \<Rightarrow> elf_file option) \<Rightarrow> u8 list \<Rightarrow> (Memory, vm_error, u32) M" where
  "load_elf minimal_parse input =
     bindM (ok_or ElfParseError (minimal_parse input)) (\<lambda>elf.
     bindM (bail_if (\<not> class_elf32 elf) NotElf32) (\<lambda>_.
     bindM (bail_if (e_machine elf \<noteq> EM_RISCV) NotRiscV) (\<lambda>_.
     bindM (bail_if (e_type elf \<noteq> ET_EXEC) NotExecutable) (\<lambda>_.
     bindM (try_u32 EntryTooLarge (e_entry elf)) (\<lambda>entry.
     bindM (bail_if (unat entry \<ge> GUEST_MAX_MEM \<or> unat entry mod 4 \<noteq> 0) InvalidEntrypoint) (\<lambda>_.
     bindM (ok_or MissingSegmentTable (segment_table elf)) (\<lambda>segments.
     bindM (bail_if (length segments > 256) TooManyProgramHeaders) (\<lambda>_.
     bindM (load_segments input (filter (\<lambda>x. p_type x = PT_LOAD) segments)) (\<lambda>_.
     ret entry)))))))))"

section \<open>The image\<close>

text \<open>
  The specification. A segment covers whole words from its address on; a byte it covers is the
  byte of the file while the file has one for it, and zero beyond. Bytes below the guest's
  memory are not written.
\<close>

definition seg_extent :: "segment \<Rightarrow> nat" where
  "seg_extent seg = 4 * ((unat (p_memsz seg) + 3) div 4)"

definition seg_byte :: "u8 list \<Rightarrow> segment \<Rightarrow> nat \<Rightarrow> u8" where
  "seg_byte input seg k = (if k < unat (p_filesz seg) then input ! (unat (p_offset seg) + k) else 0)"

definition place_segment :: "u8 list \<Rightarrow> segment \<Rightarrow> (u32 \<Rightarrow> u8) \<Rightarrow> u32 \<Rightarrow> u8" where
  "place_segment input seg f a =
     (let v = unat (p_vaddr seg)
      in if v \<le> unat a \<and> unat a < v + seg_extent seg \<and> GUEST_MIN_MEM \<le> unat a
         then seg_byte input seg (unat a - v) else f a)"

text \<open>The segments that are accepted.\<close>

definition seg_loadable :: "u8 list \<Rightarrow> segment \<Rightarrow> bool" where
  "seg_loadable input seg \<longleftrightarrow>
     unat (p_filesz seg) < GUEST_MAX_MEM \<and> unat (p_memsz seg) < GUEST_MAX_MEM \<and>
     unat (p_vaddr seg) < 2 ^ 32 \<and> unat (p_vaddr seg) mod 4 = 0 \<and> unat (p_offset seg) < 2 ^ 32 \<and>
     (0 < unat (p_memsz seg) \<longrightarrow> unat (p_vaddr seg) + seg_extent seg \<le> GUEST_MAX_MEM) \<and>
     (\<forall>k < min (unat (p_filesz seg)) (seg_extent seg).
        unat (p_offset seg) + k < min (length input) (2 ^ 32))"

definition elf_loadable :: "u8 list \<Rightarrow> elf_file \<Rightarrow> bool" where
  "elf_loadable input elf \<longleftrightarrow>
     class_elf32 elf \<and> e_machine elf = EM_RISCV \<and> e_type elf = ET_EXEC \<and>
     unat (e_entry elf) < GUEST_MAX_MEM \<and> unat (e_entry elf) mod 4 = 0 \<and>
     (\<exists>segs. segment_table elf = Some segs \<and> length segs \<le> 256 \<and>
        (\<forall>seg \<in> set segs. p_type seg = PT_LOAD \<longrightarrow> seg_loadable input seg))"

section \<open>The loops\<close>

lemma byte_of_or_push:
  assumes "k < 4" and "j < 4"
  shows "byte_of k (w OR push_bit (j * 8) (ucast (b :: u8))) = (if k = j then byte_of k w OR b else byte_of k w)"
proof (rule bit_word_eqI)
  fix n assume "n < LENGTH(8)"
  then have n: "n < 8" by simp
  have "bit (push_bit (j * 8) (ucast b :: u32)) (8 * k + n) = (k = j \<and> bit b n)"
  proof (cases "k = j")
    case True
    with n assms show ?thesis by (simp add: bit_simps)
  next
    case False
    have "bit (push_bit (j * 8) (ucast b :: u32)) (8 * k + n) =
        (j * 8 \<le> 8 * k + n \<and> 8 * k + n < 32 \<and> bit (ucast b :: u32) (8 * k + n - j * 8))"
      using assms n by (auto simp: bit_simps)
    moreover have "\<not> bit (ucast b :: u32) (8 * k + n - j * 8)" if "j * 8 \<le> 8 * k + n"
    proof -
      from that n False have "j < k" by simp
      then have "8 \<le> 8 * k + n - j * 8" by simp
      then show ?thesis by (auto simp: bit_simps dest: bit8)
    qed
    ultimately show ?thesis using False by blast
  qed
  then show "bit (byte_of k (w OR push_bit (j * 8) (ucast b))) n = bit (if k = j then byte_of k w OR b else byte_of k w) n"
    using n assms by (auto simp: byte_of_def bit_simps add.commute)
qed

text \<open>The bytes of the file at offsets \<open>[p, p + n)\<close> are there and addressable.\<close>

definition file_has :: "u8 list \<Rightarrow> nat \<Rightarrow> nat \<Rightarrow> bool" where
  "file_has input p n \<longleftrightarrow> (\<forall>k < n. p + k < min (length input) (2 ^ 32))"

lemma gather_word_ok:
  assumes "file_has input (unat offset + unat i + j) n" and "j + n \<le> 4"
    and "\<forall>k. j \<le> k \<and> k < 4 \<longrightarrow> byte_of k w = 0"
  shows "\<exists>r. gather_word input offset i j n w m = (Ok r, m) \<and>
     (\<forall>k < 4. byte_of k r = (if j \<le> k \<and> k < j + n then input ! (unat offset + unat i + k) else byte_of k w))"
  using assms
proof (induction n arbitrary: j w)
  case (Suc n)
  let ?b = "input ! (unat offset + unat i + j)" and ?o = "unat offset + unat i"
  let ?w = "w OR push_bit (j * 8) (ucast ?b)"
  have at: "?o + j < length input" "?o + j < 4294967296" using Suc.prems(1) by (auto simp: file_has_def)
  have u: "unat (offset + i) = ?o" "unat (offset + i + of_nat j) = ?o + j"
    using at(2) Suc.prems(2) by (simp_all add: unat_add32)
  have fh: "file_has input (?o + Suc j) n"
    unfolding file_has_def
  proof (intro allI impI)
    fix k assume "k < n"
    then have "?o + j + Suc k < min (length input) (2 ^ 32)"
      using Suc.prems(1) unfolding file_has_def by (metis Suc_less_eq)
    then show "?o + Suc j + k < min (length input) (2 ^ 32)" by simp
  qed
  have w: "byte_of k ?w = (if k = j then ?b else byte_of k w)" if "k < 4" for k
    using that Suc.prems(2,3) by (simp add: byte_of_or_push)
  have "\<forall>k. Suc j \<le> k \<and> k < 4 \<longrightarrow> byte_of k ?w = 0" using w Suc.prems(3) by simp
  from Suc.IH [OF fh _ this] Suc.prems(2) obtain r where
    r: "gather_word input offset i (Suc j) n ?w m = (Ok r, m)"
      "\<forall>k < 4. byte_of k r = (if Suc j \<le> k \<and> k < Suc j + n then input ! (?o + k) else byte_of k ?w)"
    by auto
  have "gather_word input offset i j (Suc n) w m = (Ok r, m)"
    using at Suc.prems(2) r(1) u by (simp add: bindM_run)
  moreover have "\<forall>k < 4. byte_of k r =
      (if j \<le> k \<and> k < j + Suc n then input ! (?o + k) else byte_of k w)"
    using r(2) w by auto
  ultimately show ?case by blast
qed (auto simp: ret_def)

lemma gather_word_fails:
  assumes "\<not> file_has input (unat offset + unat i + j) n" and "j + n \<le> 4"
  shows "gather_word input offset i j n w m \<noteq> (Ok r, m')"
  using assms
proof (induction n arbitrary: j w)
  case (Suc n)
  let ?o = "unat offset + unat i"
  show ?case
  proof (cases "?o + j < length input \<and> ?o + j < 4294967296")
    case True
    then have u: "unat (offset + i) = ?o" "unat (offset + i + of_nat j) = ?o + j"
      using Suc.prems(2) by (simp_all add: unat_add32)
    have "\<not> file_has input (?o + Suc j) n"
    proof
      assume fh: "file_has input (?o + Suc j) n"
      have "file_has input (?o + j) (Suc n)"
        unfolding file_has_def
      proof (intro allI impI)
        fix k assume "k < Suc n"
        with fh True show "?o + j + k < min (length input) (2 ^ 32)"
          by (cases k) (auto simp: file_has_def)
      qed
      with Suc.prems(1) show False by simp
    qed
    with Suc.IH [of "Suc j"] Suc.prems(2) True u show ?thesis by (simp add: bindM_run)
  next
    case False
    show ?thesis
    proof (cases "?o < 4294967296 \<and> ?o + j < 4294967296")
      case True
      then have u: "unat (offset + i) = ?o" "unat (offset + i + of_nat j) = ?o + j"
        using Suc.prems(2) by (simp_all add: unat_add32)
      with True False Suc.prems(2) show ?thesis by (simp add: bindM_run throw_def)
    next
      case no: False
      then show ?thesis
        using Suc.prems(2) by (auto simp: bindM_run unat_add32)
    qed
  qed
qed (simp add: file_has_def)

definition word_loadable :: "u8 list \<Rightarrow> u32 \<Rightarrow> u32 \<Rightarrow> u32 \<Rightarrow> nat \<Rightarrow> bool" where
  "word_loadable input file_size vaddr offset i \<longleftrightarrow>
     unat vaddr + i < GUEST_MAX_MEM \<and>
     file_has input (unat offset + i) (min (unat file_size - i) 4)"

definition place_word ::
    "u8 list \<Rightarrow> u32 \<Rightarrow> u32 \<Rightarrow> u32 \<Rightarrow> nat \<Rightarrow> (u32 \<Rightarrow> u8) \<Rightarrow> u32 \<Rightarrow> u8" where
  "place_word input file_size vaddr offset i f a =
     (if unat vaddr + i \<le> unat a \<and> unat a < unat vaddr + i + 4 \<and> GUEST_MIN_MEM \<le> unat a
      then (if unat a - unat vaddr < unat file_size then input ! (unat offset + (unat a - unat vaddr)) else 0)
      else f a)"

lemma overlay_word:
  assumes "unat a + 4 < 4294967296"
  shows "overlay f a (to_le_bytes w) b =
    (if unat a \<le> unat b \<and> unat b < unat a + 4 then byte_of (unat b - unat a) w else f b)"
proof (cases "unat a \<le> unat b")
  case True
  then have "unat (b - a) = unat b - unat a" by (simp add: unat_sub word_le_nat_alt)
  with True show ?thesis by (auto simp: overlay_def nth_to_le_bytes)
next
  case False
  then have "unat (b - a) = 4294967296 + unat b - unat a"
    using unat_sub_if_size [of b a] by (simp add: word_le_nat_alt word_size)
  with False assms have "\<not> unat (b - a) < 4" by linarith
  with False show ?thesis by (simp add: overlay_def)
qed

lemma write_loaded_word:
  assumes "guest_inv m" and "unat a mod 4 = 0" and "unat a < GUEST_MAX_MEM"
  shows "\<exists>r m'. write_mem a Word w m = (Ok r, m') \<and> guest_inv m' \<and>
     byte_at m' = (\<lambda>b. if unat a \<le> unat b \<and> unat b < unat a + 4 \<and> GUEST_MIN_MEM \<le> unat b
                       then byte_of (unat b - unat a) w else byte_at m b)"
proof (cases "in_range a")
  case True
  obtain m' where w: "write_mem a Word w m = (Ok True, m')"
    "byte_at m' = overlay (byte_at m) a (to_le_bytes w)" "same_frame m m'"
    using write_word [of m False a w] assms(1,2) True
    by (auto simp: write_mem_def guest_inv_def aligned_def)
  have "unat a + 4 < 4294967296" using assms(3) by (simp add: cfg_simps)
  moreover have "GUEST_MIN_MEM \<le> unat a" using True by (simp add: in_range_def out_of_range_def)
  ultimately have "byte_at m' = (\<lambda>b. if unat a \<le> unat b \<and> unat b < unat a + 4 \<and> GUEST_MIN_MEM \<le> unat b
                       then byte_of (unat b - unat a) w else byte_at m b)"
    unfolding w(2) by (auto simp: overlay_word fun_eq_iff)
  with w(1,3) assms(1) guest_inv_frame show ?thesis by blast
next
  case False
  then have lt: "unat a < 1024" using assms(3) by (auto simp: in_range_def out_of_range_def cfg_simps)
  have below: "\<not> (unat a \<le> unat b \<and> unat b < unat a + 4 \<and> GUEST_MIN_MEM \<le> unat b)" for b
    using lt assms(2) div_mult_mod_eq [of "unat a" 4] by (auto simp: cfg_simps)
  have "byte_at m = (\<lambda>b. if unat a \<le> unat b \<and> unat b < unat a + 4 \<and> GUEST_MIN_MEM \<le> unat b
                       then byte_of (unat b - unat a) w else byte_at m b)"
    by (simp only: below if_False)
  moreover have "write_mem a Word w m = (Ok False, m)"
    using False by (simp add: write_mem_def write_mem_unfold in_range_def)
  ultimately show ?thesis using assms(1) by blast
qed

lemma min_sub: "i < 4294967296 \<Longrightarrow> \<not> file_size \<le> of_nat i \<Longrightarrow> unat ((file_size :: u32) - of_nat i) = unat file_size - i"
  by (simp add: unat_sub word_le_nat_alt)

lemma load_word_at_ok:
  assumes "guest_inv m" and "unat vaddr mod 4 = 0" and "i mod 4 = 0" and "i < 4294967296"
    and "word_loadable input file_size vaddr offset i"
  shows "\<exists>m'. load_word_at input file_size vaddr offset (of_nat i) m = (Ok (), m') \<and> guest_inv m' \<and>
           byte_at m' = place_word input file_size vaddr offset i (byte_at m)"
proof -
  let ?a = "vaddr + of_nat i"
  have lt: "unat vaddr + i < GUEST_MAX_MEM" and fh: "file_has input (unat offset + i) (min (unat file_size - i) 4)"
    using assms(5) by (auto simp: word_loadable_def)
  have u: "unat ?a = unat vaddr + i" using lt assms(4) by (simp add: unat_add32 cfg_simps)
  have al: "unat ?a mod 4 = 0" "unat ?a < GUEST_MAX_MEM" using assms(2,3) u lt by presburger+
  have chk: "checked_add32 vaddr (of_nat i) = Some ?a"
    using lt assms(4) by (simp add: checked_add32_def cfg_simps)
  have head: "load_word_at input file_size vaddr offset (of_nat i) m =
      (if file_size \<le> of_nat i then bindM (write_mem ?a Word 0) (\<lambda>_. ret ())
       else bindM (gather_word input offset (of_nat i) 0 (min (unat (file_size - of_nat i)) 4) 0) (\<lambda>word.
            bindM (write_mem ?a Word word) (\<lambda>_. ret ()))) m"
    using al(2) by (simp add: load_word_at_def chk bindM_run bail_if_def)
  show ?thesis
  proof (cases "file_size \<le> of_nat i")
    case True
    then have "unat file_size \<le> i" using assms(4) by (simp add: word_le_nat_alt)
    moreover obtain r m' where "write_mem ?a Word 0 m = (Ok r, m')" "guest_inv m'"
      "byte_at m' = (\<lambda>b. if unat ?a \<le> unat b \<and> unat b < unat ?a + 4 \<and> GUEST_MIN_MEM \<le> unat b
                       then byte_of (unat b - unat ?a) 0 else byte_at m b)"
      using write_loaded_word [OF assms(1) al] by blast
    ultimately show ?thesis
      using True u by (auto simp: head bindM_def ret_def place_word_def fun_eq_iff byte_of_def)
  next
    case False
    let ?n = "min (unat file_size - i) 4"
    have n: "min (unat (file_size - of_nat i)) 4 = ?n" using min_sub [OF assms(4) False] by simp
    have fh0: "file_has input (unat offset + unat (of_nat i :: u32) + 0) ?n" using fh assms(4) by simp
    obtain w where g: "gather_word input offset (of_nat i) 0 ?n 0 m = (Ok w, m)"
      and w: "\<forall>k < 4. byte_of k w = (if k < ?n then input ! (unat offset + i + k) else 0)"
      using gather_word_ok [OF fh0, of 0 m] assms(4) by (auto simp: byte_of_def)
    obtain r m' where wr: "write_mem ?a Word w m = (Ok r, m')" "guest_inv m'"
      "byte_at m' = (\<lambda>b. if unat ?a \<le> unat b \<and> unat b < unat ?a + 4 \<and> GUEST_MIN_MEM \<le> unat b
                       then byte_of (unat b - unat ?a) w else byte_at m b)"
      using write_loaded_word [OF assms(1) al] by blast
    have "byte_at m' = place_word input file_size vaddr offset i (byte_at m)"
    proof
      fix b
      show "byte_at m' b = place_word input file_size vaddr offset i (byte_at m) b"
      proof (cases "unat vaddr + i \<le> unat b \<and> unat b < unat vaddr + i + 4 \<and> GUEST_MIN_MEM \<le> unat b")
        case True
        then have k: "unat b - (unat vaddr + i) < 4"
          "unat offset + i + (unat b - (unat vaddr + i)) = unat offset + (unat b - unat vaddr)" by auto
        from True k spec [OF w, of "unat b - (unat vaddr + i)"] show ?thesis
          unfolding wr(3) u place_word_def by auto
      qed (auto simp: wr(3) u place_word_def)
    qed
    with wr(1,2) False g n show ?thesis by (simp add: head bindM_def ret_def)
  qed
qed

lemma load_word_at_fails:
  assumes "guest_inv m" and "i < 4294967296" and "\<not> word_loadable input file_size vaddr offset i"
  shows "load_word_at input file_size vaddr offset (of_nat i) m \<noteq> (Ok x, m')"
proof (cases "unat vaddr + i < GUEST_MAX_MEM")
  case False
  show ?thesis
  proof (cases "unat vaddr + i < 4294967296")
    case True
    with False assms(2) have "unat (vaddr + of_nat i) = unat vaddr + i" by (simp add: unat_add32)
    with True False assms(2) show ?thesis
      by (simp add: load_word_at_def checked_add32_def bindM_run bail_if_def)
  qed (use assms(2) in \<open>simp add: load_word_at_def checked_add32_def bindM_run\<close>)
next
  case True
  let ?a = "vaddr + of_nat i" and ?n = "min (unat file_size - i) 4"
  have nf: "\<not> file_has input (unat offset + i) ?n" using assms(3) True by (simp add: word_loadable_def)
  then have fs: "\<not> file_size \<le> of_nat i"
    using assms(2) by (auto simp: word_le_nat_alt file_has_def)
  have u: "unat ?a = unat vaddr + i" using True assms(2) by (simp add: unat_add32 cfg_simps)
  have chk: "checked_add32 vaddr (of_nat i) = Some ?a"
    using True assms(2) by (simp add: checked_add32_def cfg_simps)
  have n: "min (unat (file_size - of_nat i)) 4 = ?n" using min_sub [OF assms(2) fs] by simp
  have "\<not> file_has input (unat offset + unat (of_nat i :: u32) + 0) ?n" using nf assms(2) by simp
  then have "gather_word input offset (of_nat i) 0 ?n 0 m \<noteq> (Ok w, m2)" for w m2
    by (rule gather_word_fails) simp
  then show ?thesis
    using True u fs n by (auto simp: load_word_at_def chk bindM_run bail_if_def bindM_eq_Ok [of "gather_word a b c d e f" for a b c d e f])
qed

definition place_words ::
    "u8 list \<Rightarrow> u32 \<Rightarrow> u32 \<Rightarrow> u32 \<Rightarrow> nat \<Rightarrow> nat \<Rightarrow> (u32 \<Rightarrow> u8) \<Rightarrow> u32 \<Rightarrow> u8" where
  "place_words input file_size vaddr offset i n f a =
     (if unat vaddr + i \<le> unat a \<and> unat a < unat vaddr + i + n \<and> GUEST_MIN_MEM \<le> unat a
      then (if unat a - unat vaddr < unat file_size then input ! (unat offset + (unat a - unat vaddr)) else 0)
      else f a)"

lemma place_words_Cons:
  "place_words input fs v off (i + 4) n (place_word input fs v off i f) = place_words input fs v off i (n + 4) f"
  by (rule ext) (auto simp: place_words_def place_word_def)

lemma words_from_Suc:
  "map (\<lambda>k. of_nat (4 * k) :: u32) [a..<a + Suc n] = of_nat (4 * a) # map (\<lambda>k. of_nat (4 * k)) [Suc a..<Suc a + n]"
  by (subst upt_conv_Cons) simp_all

lemma load_words_ok:
  assumes "guest_inv m" and "unat vaddr mod 4 = 0" and "4 * (a + n) \<le> 4294967296"
    and "\<forall>k. a \<le> k \<and> k < a + n \<longrightarrow> word_loadable input file_size vaddr offset (4 * k)"
  shows "\<exists>m'. load_words input file_size vaddr offset (map (\<lambda>k. of_nat (4 * k)) [a..<a + n]) m = (Ok (), m') \<and>
           guest_inv m' \<and> byte_at m' = place_words input file_size vaddr offset (4 * a) (4 * n) (byte_at m)"
  using assms
proof (induction n arbitrary: a m)
  case (Suc n)
  from load_word_at_ok [OF Suc.prems(1,2), of "4 * a" input file_size offset] Suc.prems(3,4) obtain m1 where
    1: "load_word_at input file_size vaddr offset (of_nat (4 * a)) m = (Ok (), m1)" "guest_inv m1"
      "byte_at m1 = place_word input file_size vaddr offset (4 * a) (byte_at m)" by auto
  have "4 * (Suc a + n) \<le> 4294967296" using Suc.prems(3) by simp
  moreover have "\<forall>k. Suc a \<le> k \<and> k < Suc a + n \<longrightarrow> word_loadable input file_size vaddr offset (4 * k)"
    using Suc.prems(4) by simp
  ultimately obtain m2 where
    2: "load_words input file_size vaddr offset (map (\<lambda>k. of_nat (4 * k)) [Suc a..<Suc a + n]) m1 = (Ok (), m2)"
      "guest_inv m2" "byte_at m2 = place_words input file_size vaddr offset (4 * Suc a) (4 * n) (byte_at m1)"
    using Suc.IH [OF 1(2) Suc.prems(2)] by blast
  have "byte_at m2 = place_words input file_size vaddr offset (4 * a) (4 * Suc n) (byte_at m)"
    using 2(3) place_words_Cons [of input file_size vaddr offset "4 * a" "4 * n"] unfolding 1(3)
    by (simp add: add.commute)
  moreover have "load_words input file_size vaddr offset (map (\<lambda>k. of_nat (4 * k)) [a..<a + Suc n]) m = (Ok (), m2)"
    unfolding words_from_Suc load_words.simps by (simp only: bindM_def 1(1) 2(1) prod.case outcome.case)
  ultimately show ?case using 2(2) by blast
qed (auto simp: ret_def place_words_def fun_eq_iff)

lemma load_words_fails:
  assumes "guest_inv m" and "unat vaddr mod 4 = 0" and "4 * (a + n) \<le> 4294967296"
    and "\<exists>k. a \<le> k \<and> k < a + n \<and> \<not> word_loadable input file_size vaddr offset (4 * k)"
  shows "load_words input file_size vaddr offset (map (\<lambda>k. of_nat (4 * k)) [a..<a + n]) m \<noteq> (Ok x, m')"
  using assms
proof (induction n arbitrary: a m)
  case (Suc n)
  show ?case
  proof (cases "word_loadable input file_size vaddr offset (4 * a)")
    case True
    from load_word_at_ok [OF Suc.prems(1,2) _ _ True] Suc.prems(3) obtain m1 where
      1: "load_word_at input file_size vaddr offset (of_nat (4 * a)) m = (Ok (), m1)" "guest_inv m1" by auto
    have "4 * (Suc a + n) \<le> 4294967296" using Suc.prems(3) by simp
    moreover have "\<exists>k. Suc a \<le> k \<and> k < Suc a + n \<and> \<not> word_loadable input file_size vaddr offset (4 * k)"
      using Suc.prems(4) True by (metis add_Suc add_Suc_right Suc_leI le_neq_implies_less)
    ultimately have "load_words input file_size vaddr offset (map (\<lambda>k. of_nat (4 * k)) [Suc a..<Suc a + n]) m1 \<noteq> (Ok x, m')"
      using Suc.IH [OF 1(2) Suc.prems(2)] by blast
    then show ?thesis
      unfolding words_from_Suc load_words.simps by (simp only: bindM_def 1(1) prod.case outcome.case) simp
  next
    case False
    then have "load_word_at input file_size vaddr offset (of_nat (4 * a)) m \<noteq> (Ok y, m2)" for y m2
      using load_word_at_fails [OF Suc.prems(1), of "4 * a"] Suc.prems(3) by simp
    then show ?thesis unfolding words_from_Suc load_words.simps bindM_eq_Ok by blast
  qed
qed auto

text \<open>All words of a segment can be loaded exactly when its bytes are there and it fits.\<close>

lemma words_loadable_iff:
  assumes "unat vaddr mod 4 = 0"
  shows "(\<forall>k < (n + 3) div 4. word_loadable input file_size vaddr offset (4 * k)) \<longleftrightarrow>
     (0 < n \<longrightarrow> unat vaddr + 4 * ((n + 3) div 4) \<le> GUEST_MAX_MEM) \<and>
     file_has input (unat offset) (min (unat file_size) (4 * ((n + 3) div 4)))"
    (is "?L \<longleftrightarrow> ?A \<and> ?F")
proof
  let ?w = "(n + 3) div 4"
  assume L: ?L
  have ?A
  proof
    assume "0 < n"
    then have w: "0 < ?w" by (simp add: div_greater_zero_iff)
    with L have "unat vaddr + 4 * (?w - 1) < GUEST_MAX_MEM" by (auto simp: word_loadable_def)
    moreover have "4 * (?w - 1) + 4 = 4 * ?w" using w by simp
    moreover obtain q where q: "unat vaddr = 4 * q" using assms by (metis mult_div_mod_eq add_0_right)
    ultimately have "q + (?w - 1) < 50331648" by (simp add: cfg_simps)
    then have "q + ?w \<le> 50331648" using w by linarith
    then show "unat vaddr + 4 * ?w \<le> GUEST_MAX_MEM" using q by (simp add: cfg_simps)
  qed
  moreover have ?F
    unfolding file_has_def
  proof (intro allI impI)
    fix k assume k: "k < min (unat file_size) (4 * ?w)"
    then have "k div 4 < ?w" by (simp add: div_less_iff_less_mult mult.commute)
    with L have "file_has input (unat offset + 4 * (k div 4)) (min (unat file_size - 4 * (k div 4)) 4)"
      by (auto simp: word_loadable_def)
    moreover have "k mod 4 < min (unat file_size - 4 * (k div 4)) 4"
      using k mult_div_mod_eq [of 4 k] mod_less_divisor [of 4 k] by linarith
    ultimately have "unat offset + 4 * (k div 4) + k mod 4 < min (length input) (2 ^ 32)"
      unfolding file_has_def by blast
    then show "unat offset + k < min (length input) (2 ^ 32)"
      using mult_div_mod_eq [of 4 k] by simp
  qed
  ultimately show "?A \<and> ?F" by blast
next
  let ?w = "(n + 3) div 4"
  assume AF: "?A \<and> ?F"
  show ?L
  proof (intro allI impI)
    fix k assume k: "k < ?w"
    then have "0 < n" by (cases n) simp_all
    with AF k have "unat vaddr + 4 * k < GUEST_MAX_MEM" by simp
    moreover have "file_has input (unat offset + 4 * k) (min (unat file_size - 4 * k) 4)"
      unfolding file_has_def
    proof (intro allI impI)
      fix j assume "j < min (unat file_size - 4 * k) 4"
      then have "4 * k + j < min (unat file_size) (4 * ?w)" using k by linarith
      with AF show "unat offset + 4 * k + j < min (length input) (2 ^ 32)"
        unfolding file_has_def by (metis add.assoc)
    qed
    ultimately show "word_loadable input file_size vaddr offset (4 * k)" by (simp add: word_loadable_def)
  qed
qed

section \<open>Segments and the file\<close>

lemma unat_ucast_64_32: "unat (v :: u64) < 4294967296 \<Longrightarrow> unat (ucast v :: u32) = unat v"
  by (simp add: unsigned_ucast_eq take_bit_eq_mod)

lemma step_by4_upt: "step_by4 n = map (\<lambda>k. of_nat (4 * k)) [0..<0 + (unat n + 3) div 4]"
  by (simp add: step_by4_def)

text \<open>The checks on the numbers of a segment.\<close>

definition seg_numbers_ok :: "segment \<Rightarrow> bool" where
  "seg_numbers_ok seg \<longleftrightarrow>
     unat (p_filesz seg) < GUEST_MAX_MEM \<and> unat (p_memsz seg) < GUEST_MAX_MEM \<and>
     unat (p_vaddr seg) < 2 ^ 32 \<and> unat (p_vaddr seg) mod 4 = 0 \<and> unat (p_offset seg) < 2 ^ 32"

lemma load_segment_checked:
  assumes "seg_numbers_ok seg"
  shows "load_segment input seg m =
     load_words input (ucast (p_filesz seg)) (ucast (p_vaddr seg)) (ucast (p_offset seg))
       (step_by4 (ucast (p_memsz seg))) m"
  using assms
  by (simp add: seg_numbers_ok_def load_segment_def try_u32_def bail_if_def bindM_run cfg_simps
      unat_ucast_64_32)

lemma load_segment_unchecked:
  assumes "\<not> seg_numbers_ok seg"
  shows "load_segment input seg m \<noteq> (Ok x, m')"
proof
  assume ok: "load_segment input seg m = (Ok x, m')"
  have 1: "unat (p_filesz seg) < 2 ^ 32"
    using ok by (auto simp: load_segment_def try_u32_def bindM_run split: if_splits)
  have 2: "unat (p_filesz seg) < GUEST_MAX_MEM"
    using ok 1 by (auto simp: load_segment_def try_u32_def bail_if_def bindM_run unat_ucast_64_32 split: if_splits)
  have 3: "unat (p_memsz seg) < 2 ^ 32"
    using ok 1 2 by (auto simp: load_segment_def try_u32_def bail_if_def bindM_run unat_ucast_64_32 split: if_splits)
  have 4: "unat (p_memsz seg) < GUEST_MAX_MEM"
    using ok 1 2 3 by (auto simp: load_segment_def try_u32_def bail_if_def bindM_run unat_ucast_64_32 split: if_splits)
  have 5: "unat (p_vaddr seg) < 2 ^ 32"
    using ok 1 2 3 4 by (auto simp: load_segment_def try_u32_def bail_if_def bindM_run unat_ucast_64_32 split: if_splits)
  have 6: "unat (p_vaddr seg) mod 4 = 0"
    using ok 1 2 3 4 5 by (auto simp: load_segment_def try_u32_def bail_if_def bindM_run unat_ucast_64_32 split: if_splits)
  have 7: "unat (p_offset seg) < 2 ^ 32"
    using ok 1 2 3 4 5 6 by (auto simp: load_segment_def try_u32_def bail_if_def bindM_run unat_ucast_64_32 split: if_splits)
  from 1 2 3 4 5 6 7 assms show False by (simp add: seg_numbers_ok_def)
qed

lemma seg_loadable_numbers:
  assumes "seg_numbers_ok seg"
  shows "seg_loadable input seg \<longleftrightarrow>
     (\<forall>k < (unat (ucast (p_memsz seg) :: u32) + 3) div 4.
        word_loadable input (ucast (p_filesz seg)) (ucast (p_vaddr seg)) (ucast (p_offset seg)) (4 * k))"
proof -
  note ok = assms [unfolded seg_numbers_ok_def]
  have small: "unat (p_memsz seg) < 4294967296" "unat (p_filesz seg) < 4294967296" using ok by (auto simp: cfg_simps)
  show ?thesis
    using ok words_loadable_iff [of "ucast (p_vaddr seg)" "unat (p_memsz seg)" input
        "ucast (p_filesz seg)" "ucast (p_offset seg)"]
    by (simp add: unat_ucast_64_32 small seg_loadable_def seg_extent_def file_has_def)
qed

lemma load_segment_ok:
  assumes "guest_inv m" and "seg_loadable input seg"
  shows "\<exists>m'. load_segment input seg m = (Ok (), m') \<and> guest_inv m' \<and>
           byte_at m' = place_segment input seg (byte_at m)"
proof -
  have num: "seg_numbers_ok seg" using assms(2) by (auto simp: seg_loadable_def seg_numbers_ok_def)
  note ok = num [unfolded seg_numbers_ok_def]
  have small: "unat (p_memsz seg) < 4294967296" "unat (p_filesz seg) < 4294967296" using ok by (auto simp: cfg_simps)
  note u = unat_ucast_64_32 [OF small(1)] unat_ucast_64_32 [OF small(2)]
  have all: "\<forall>k. 0 \<le> k \<and> k < 0 + (unat (ucast (p_memsz seg) :: u32) + 3) div 4 \<longrightarrow>
      word_loadable input (ucast (p_filesz seg)) (ucast (p_vaddr seg)) (ucast (p_offset seg)) (4 * k)"
    using seg_loadable_numbers [OF num] assms(2) by simp
  have "4 * (0 + (unat (ucast (p_memsz seg) :: u32) + 3) div 4) \<le> 4294967296"
    using ok u by (simp add: cfg_simps) linarith
  from load_words_ok [OF assms(1) _ this all] obtain m' where
    m': "load_words input (ucast (p_filesz seg)) (ucast (p_vaddr seg)) (ucast (p_offset seg))
       (step_by4 (ucast (p_memsz seg))) m = (Ok (), m')" "guest_inv m'"
     "byte_at m' = place_words input (ucast (p_filesz seg)) (ucast (p_vaddr seg)) (ucast (p_offset seg)) (4 * 0)
        (4 * ((unat (ucast (p_memsz seg) :: u32) + 3) div 4)) (byte_at m)"
    using ok unat_ucast_64_32 by (auto simp: step_by4_upt)
  have "byte_at m' = place_segment input seg (byte_at m)"
    using ok by (auto simp: m'(3) place_words_def place_segment_def seg_byte_def seg_extent_def Let_def
        fun_eq_iff unat_ucast_64_32 u)
  with m'(1,2) show ?thesis using load_segment_checked [OF num] by auto
qed

lemma load_segment_fails:
  assumes "guest_inv m" and "\<not> seg_loadable input seg"
  shows "load_segment input seg m \<noteq> (Ok x, m')"
proof (cases "seg_numbers_ok seg")
  case True
  note ok = True [unfolded seg_numbers_ok_def]
  have small: "unat (p_memsz seg) < 4294967296" using ok by (auto simp: cfg_simps)
  have "\<exists>k. 0 \<le> k \<and> k < 0 + (unat (ucast (p_memsz seg) :: u32) + 3) div 4 \<and>
      \<not> word_loadable input (ucast (p_filesz seg)) (ucast (p_vaddr seg)) (ucast (p_offset seg)) (4 * k)"
    using seg_loadable_numbers [OF True] assms(2) by auto
  moreover have "4 * (0 + (unat (ucast (p_memsz seg) :: u32) + 3) div 4) \<le> 4294967296"
    using ok unat_ucast_64_32 [OF small] by (simp add: cfg_simps) linarith
  moreover have "unat (ucast (p_vaddr seg) :: u32) mod 4 = 0" using ok unat_ucast_64_32 by auto
  ultimately show ?thesis
    unfolding load_segment_checked [OF True] step_by4_upt by (intro load_words_fails [OF assms(1)])
qed (rule load_segment_unchecked)

lemma load_segments_ok:
  assumes "guest_inv m" and "\<forall>seg \<in> set segs. seg_loadable input seg"
  shows "\<exists>m'. load_segments input segs m = (Ok (), m') \<and> guest_inv m' \<and>
           byte_at m' = fold (place_segment input) segs (byte_at m)"
  using assms
proof (induction segs arbitrary: m)
  case (Cons seg segs)
  then obtain m1 where "load_segment input seg m = (Ok (), m1)" "guest_inv m1"
    "byte_at m1 = place_segment input seg (byte_at m)" using load_segment_ok [OF Cons.prems(1)] by force
  moreover from Cons.IH [OF this(2)] Cons.prems(2) obtain m2 where
    "load_segments input segs m1 = (Ok (), m2)" "guest_inv m2"
    "byte_at m2 = fold (place_segment input) segs (byte_at m1)" by auto
  ultimately show ?case by (simp add: bindM_def)
qed (simp add: ret_def)

lemma load_segments_fails:
  assumes "guest_inv m" and "\<exists>seg \<in> set segs. \<not> seg_loadable input seg"
  shows "load_segments input segs m \<noteq> (Ok x, m')"
  using assms
proof (induction segs arbitrary: m)
  case (Cons seg segs)
  show ?case
  proof (cases "seg_loadable input seg")
    case True
    then obtain m1 where "load_segment input seg m = (Ok (), m1)" "guest_inv m1"
      using load_segment_ok [OF Cons.prems(1)] by blast
    with Cons.IH [of m1] Cons.prems(2) True show ?thesis by (simp add: bindM_def)
  next
    case False
    with load_segment_fails [OF Cons.prems(1)] show ?thesis by (simp add: bindM_eq_Ok)
  qed
qed simp

section \<open>Properties\<close>

lemma load_elf_header:
  assumes "minimal_parse input = Some elf"
    and "class_elf32 elf" "e_machine elf = EM_RISCV" "e_type elf = ET_EXEC"
    and "unat (e_entry elf) < GUEST_MAX_MEM" "unat (e_entry elf) mod 4 = 0"
    and "segment_table elf = Some segs" "length segs \<le> 256"
  shows "load_elf minimal_parse input m =
     bindM (load_segments input (filter (\<lambda>x. p_type x = PT_LOAD) segs)) (\<lambda>_. ret (ucast (e_entry elf))) m"
proof -
  have lt: "unat (e_entry elf) < 4294967296" using assms(5) by (simp add: cfg_simps)
  then have "bail_if (GUEST_MAX_MEM \<le> unat (ucast (e_entry elf) :: u32) \<or>
      unat (ucast (e_entry elf) :: u32) mod 4 \<noteq> 0) InvalidEntrypoint = ret ()"
    using assms(5,6) by (simp add: bail_if_def unat_ucast_64_32)
  then show ?thesis
    using lt assms(2-4,8) by (simp add: load_elf_def assms(1,7) bindM_run bail_if_def [of False] try_u32_def)
qed

lemma load_elf_ok:
  assumes "guest_inv m" and "minimal_parse input = Some elf" and "elf_loadable input elf"
  shows "\<exists>m'. load_elf minimal_parse input m = (Ok (ucast (e_entry elf)), m') \<and>
     byte_at m' = fold (place_segment input)
       (filter (\<lambda>x. p_type x = PT_LOAD) (the (segment_table elf))) (byte_at m) \<and> guest_inv m'"
proof -
  from assms(3) obtain segs where s: "segment_table elf = Some segs" "length segs \<le> 256"
    "\<forall>seg \<in> set segs. p_type seg = PT_LOAD \<longrightarrow> seg_loadable input seg"
    by (auto simp: elf_loadable_def)
  then obtain m' where
    "load_segments input (filter (\<lambda>x. p_type x = PT_LOAD) segs) m = (Ok (), m')"
    "byte_at m' = fold (place_segment input) (filter (\<lambda>x. p_type x = PT_LOAD) segs) (byte_at m)"
    "guest_inv m'"
    using load_segments_ok [OF assms(1), of "filter (\<lambda>x. p_type x = PT_LOAD) segs" input] by auto
  with s load_elf_header [where minimal_parse = minimal_parse and input = input, OF assms(2)] assms(3) show ?thesis
    by (auto simp: elf_loadable_def bindM_def ret_def)
qed

text \<open>
  Property C9. A file that meets the loader's conditions is loaded: the memory holds, segment by
  segment, the bytes of the file and zeros beyond them, every other byte is as it was, and the
  result is the entry point.
\<close>

theorem load_elf_places_segments:
  assumes "guest_inv m" and "minimal_parse input = Some elf" and "elf_loadable input elf"
  shows "\<exists>m'. load_elf minimal_parse input m = (Ok (ucast (e_entry elf)), m') \<and>
     byte_at m' = fold (place_segment input)
       (filter (\<lambda>x. p_type x = PT_LOAD) (the (segment_table elf))) (byte_at m)"
  using load_elf_ok [where minimal_parse = minimal_parse and input = input, OF assms] by blast

lemma load_elf_loadable:
  assumes "guest_inv m" and "load_elf minimal_parse input m = (Ok entry, m')"
  shows "\<exists>elf. minimal_parse input = Some elf \<and> elf_loadable input elf \<and> entry = ucast (e_entry elf)"
proof -
  from assms(2) obtain elf where elf: "minimal_parse input = Some elf"
    by (cases "minimal_parse input") (auto simp: load_elf_def bindM_run)
  note d = load_elf_def elf bindM_run bail_if_def try_u32_def
  have 1: "class_elf32 elf" "e_machine elf = EM_RISCV" "e_type elf = ET_EXEC" "unat (e_entry elf) < 4294967296"
    using assms(2) by (auto simp: d split: if_splits)
  have 2: "unat (e_entry elf) < GUEST_MAX_MEM" "unat (e_entry elf) mod 4 = 0"
    using assms(2) 1 by (auto simp: d unat_ucast_64_32 split: if_splits)
  have e: "bail_if (GUEST_MAX_MEM \<le> unat (ucast (e_entry elf) :: u32) \<or> unat (ucast (e_entry elf) :: u32) mod 4 \<noteq> 0) InvalidEntrypoint = ret ()"
    using 1(4) 2 by (simp add: bail_if_def unat_ucast_64_32)
  obtain segs where segs: "segment_table elf = Some segs" "length segs \<le> 256"
    using assms(2) 1 e by (cases "segment_table elf") (auto simp: d split: if_splits)
  note header = load_elf_header [where minimal_parse = minimal_parse and input = input, OF elf 1(1-3) 2 segs]
  have "seg_loadable input seg" if "seg \<in> set segs" "p_type seg = PT_LOAD" for seg
  proof (rule ccontr)
    assume "\<not> seg_loadable input seg"
    with load_segments_fails [OF assms(1), of "filter (\<lambda>x. p_type x = PT_LOAD) segs" input] that assms(2)
    show False unfolding header by (auto simp: bindM_eq_Ok)
  qed
  moreover have "entry = ucast (e_entry elf)"
    using assms(2) unfolding header by (auto simp: bindM_eq_Ok ret_def)
  ultimately show ?thesis using elf 1 2 segs by (auto simp: elf_loadable_def)
qed

text \<open>
  Property C10. Only such files are loaded: if the loader returns an entry point, the file was
  parsed and met every condition.
\<close>

theorem load_elf_only_loadable:
  assumes "guest_inv m" and "load_elf minimal_parse input m = (Ok entry, m')"
  shows "\<exists>elf. minimal_parse input = Some elf \<and> elf_loadable input elf \<and> entry = ucast (e_entry elf)"
  using assms by (rule load_elf_loadable)

end
