(* ===== verification/Word_Write.thy ===== *)
theory Word_Write
  imports Prelude
begin

text \<open>
  The stream of words that the serializer writes to (\<open>src/serializer/mod.rs\<close>, the trait
  \<open>WordWrite\<close> and its implementations) and the serializer's errors (\<open>src/serializer/error.rs\<close>).
\<close>

section \<open>Errors\<close>

datatype ser_error =
    Custom string
  | DeserializeBadBool
  | DeserializeBadChar
  | DeserializeBadOption
  | DeserializeBadUtf8
  | DeserializeUnexpectedEnd
  | NotSupported
  | SerializeBufferFull

text \<open>serde's constructor for the errors of its own; the message is printed into a string.\<close>

definition custom :: "string \<Rightarrow> ser_error" where
  "custom msg = Custom msg"

text \<open>\<open>Display\<close> for the errors.\<close>

fun error_message :: "ser_error \<Rightarrow> string" where
  "error_message (Custom msg) = msg"
| "error_message DeserializeBadBool = ''Found a bool that wasn't 0 or 1''"
| "error_message DeserializeBadChar = ''Found an invalid unicode char''"
| "error_message DeserializeBadOption = ''Found an Option discriminant that wasn't 0 or 1''"
| "error_message DeserializeBadUtf8 = ''Tried to parse invalid utf-8''"
| "error_message DeserializeUnexpectedEnd = ''Unexpected end during deserialization''"
| "error_message NotSupported = ''Not supported''"
| "error_message SerializeBufferFull = ''The serialize buffer is full''"

section \<open>The trait\<close>

text \<open>
  A stream of type \<open>'w\<close> is written by the two methods of the trait. Either may fail, and change the
  stream all the same.
\<close>

record 'w WordWrite =
  write_words :: "u32 list \<Rightarrow> ('w, ser_error, unit) M"
  write_padded_bytes :: "u8 list \<Rightarrow> ('w, ser_error, unit) M"

text \<open>A \<open>Vec<u32>\<close>.\<close>

definition vec_write_words :: "u32 list \<Rightarrow> (u32 list, ser_error, unit) M" where
  "vec_write_words words = modM (\<lambda>vec. vec @ words)"

text \<open>
  \<open>chunks_exact(4)\<close> and its remainder: whole words, then, when bytes are left, one more word
  filled with zeros.
\<close>

definition vec_write_padded_bytes :: "u8 list \<Rightarrow> (u32 list, ser_error, unit) M" where
  "vec_write_padded_bytes bytes =
     (let last_word = drop (4 * (length bytes div 4)) bytes in
      bindM (modM (\<lambda>vec. vec @ bytes_to_words bytes)) (\<lambda>_.
      if last_word \<noteq> []
      then modM (\<lambda>vec. vec @ [le_word (last_word @ replicate (4 - length last_word) 0)])
      else ret ()))"

definition vec_write :: "u32 list WordWrite" where
  "vec_write = \<lparr>write_words = vec_write_words, write_padded_bytes = vec_write_padded_bytes\<rparr>"

text \<open>A borrowed stream: the state is that of the stream behind the reference.\<close>

definition borrowed :: "'w WordWrite \<Rightarrow> 'w WordWrite" where
  "borrowed W =
     \<lparr>write_words = (\<lambda>words. write_words W words),
      write_padded_bytes = (\<lambda>bytes. write_padded_bytes W bytes)\<rparr>"

section \<open>The serializer's state\<close>

record 'w Serializer =
  stream :: 'w

definition new_serializer :: "'w \<Rightarrow> 'w Serializer" where
  "new_serializer w = \<lparr>stream = w\<rparr>"

type_synonym 'w ser = "('w Serializer, ser_error, unit) M"

definition on_stream :: "('w, ser_error, unit) M \<Rightarrow> 'w ser" where
  "on_stream f s = (case f (stream s) of (r, w) \<Rightarrow> (r, s\<lparr>stream := w\<rparr>))"

lemma on_stream_ret: "on_stream (ret ()) = ret ()"
  by (simp add: fun_eq_iff on_stream_def ret_def)

lemma on_stream_bind: "on_stream (bindM f (\<lambda>_. g)) = bindM (on_stream f) (\<lambda>_. on_stream g)"
  by (simp add: fun_eq_iff on_stream_def bindM_def split: prod.splits outcome.splits)

section \<open>Sequences of writes\<close>

datatype write_call = Words "u32 list" | Padded "u8 list"

primrec make_call :: "'w WordWrite \<Rightarrow> write_call \<Rightarrow> ('w, ser_error, unit) M" where
  "make_call W (Words words) = write_words W words"
| "make_call W (Padded bytes) = write_padded_bytes W bytes"

primrec perform :: "'w WordWrite \<Rightarrow> write_call list \<Rightarrow> ('w, ser_error, unit) M" where
  "perform W [] = ret ()"
| "perform W (c # cs) = bindM (make_call W c) (\<lambda>_. perform W cs)"

lemma bindM_units:
  fixes m :: "('s, 'e, unit) M"
  shows "bindM m ret = m" and "bindM (ret x) f = f x"
  by (simp_all add: fun_eq_iff bindM_def ret_def split: prod.split outcome.split)

lemma bindM_stops: "bindM (throw e) f = throw e" "bindM (panicM p) f = panicM p"
  by (simp_all add: fun_eq_iff bindM_throw bindM_panicM throw_def panicM_def)

lemma bindM_seq: "bindM (bindM m f) g = bindM m (\<lambda>x. bindM (f x) g)"
  by (simp add: fun_eq_iff bindM_assoc)

lemma perform_append: "perform W (cs @ ds) = bindM (perform W cs) (\<lambda>_. perform W ds)"
  by (induction cs) (simp_all add: bindM_units bindM_seq)

section \<open>What a stream receives\<close>

text \<open>Bytes as words, the last one filled up with zeros.\<close>

definition pad_words :: "u8 list \<Rightarrow> u32 list" where
  "pad_words bs = bytes_to_words (bs @ replicate ((4 - length bs mod 4) mod 4) 0)"

lemma bytes_to_words_append:
  "length xs mod 4 = 0 \<Longrightarrow> bytes_to_words (xs @ ys) = bytes_to_words xs @ bytes_to_words ys"
  by (induction xs rule: bytes_to_words.induct) auto

lemma bytes_to_words_short: "length bs < 4 \<Longrightarrow> bytes_to_words bs = []"
  by (induction bs rule: bytes_to_words.induct) auto

lemma bytes_to_words_4: "length bs = 4 \<Longrightarrow> bytes_to_words bs = [le_word bs]"
  by (auto simp: numeral_eq_Suc length_Suc_conv)

lemma pad_words_split:
  "pad_words bs = bytes_to_words bs @
     (let r = drop (4 * (length bs div 4)) bs
      in if r = [] then [] else [le_word (r @ replicate (4 - length r) 0)])"
proof -
  let ?n = "4 * (length bs div 4)"
  let ?r = "drop ?n bs" and ?z = "replicate ((4 - length bs mod 4) mod 4) (0 :: u8)"
  have n: "?n \<le> length bs" "length bs - ?n = length bs mod 4"
    by (simp_all add: minus_mult_div_eq_mod)
  have r: "length ?r = length bs mod 4" using n by simp
  have t: "length (take ?n bs) mod 4 = 0" using n by simp
  have "bs = take ?n bs @ ?r" by simp
  then have 1: "bytes_to_words bs = bytes_to_words (take ?n bs)"
    using bytes_to_words_append [OF t, of ?r] bytes_to_words_short [of ?r] r by simp
  have 2: "pad_words bs = bytes_to_words (take ?n bs) @ bytes_to_words (?r @ ?z)"
    unfolding pad_words_def using bytes_to_words_append [OF t, of "?r @ ?z"] by (metis append_assoc append_take_drop_id)
  show ?thesis
  proof (cases "?r = []")
    case True
    with r have "length bs mod 4 = 0" by simp
    with True 1 2 show ?thesis by simp
  next
    case False
    then have "0 < length ?r" by simp
    then have nz: "0 < length bs mod 4" unfolding r .
    then have z: "?z = replicate (4 - length ?r) 0" unfolding r by simp
    have "length (?r @ ?z) = 4" unfolding z length_append r using nz by simp
    from bytes_to_words_4 [OF this] have "bytes_to_words (?r @ ?z) = [le_word (?r @ replicate (4 - length ?r) 0)]"
      unfolding z .
    with False 1 2 show ?thesis by (simp add: Let_def)
  qed
qed

primrec call_words :: "write_call \<Rightarrow> u32 list" where
  "call_words (Words words) = words"
| "call_words (Padded bytes) = pad_words bytes"

text \<open>
  The contract of a stream that accepts everything: a write appends its words to the contents.
\<close>

locale word_stream =
  fixes W :: "'w WordWrite" and contents :: "'w \<Rightarrow> u32 list"
  assumes words_appended:
      "\<exists>w'. write_words W words w = (Ok (), w') \<and> contents w' = contents w @ words"
    and bytes_appended:
      "\<exists>w'. write_padded_bytes W bytes w = (Ok (), w') \<and> contents w' = contents w @ pad_words bytes"
begin

lemma call_appends: "\<exists>w'. make_call W c w = (Ok (), w') \<and> contents w' = contents w @ call_words c"
  using words_appended bytes_appended by (cases c) simp_all

lemma perform_appends:
  "\<exists>w'. perform W cs w = (Ok (), w') \<and> contents w' = contents w @ concat (map call_words cs)"
proof (induction cs arbitrary: w)
  case Nil
  show ?case by (simp add: ret_def)
next
  case (Cons c cs)
  obtain w1 where w1: "make_call W c w = (Ok (), w1)" "contents w1 = contents w @ call_words c"
    using call_appends by blast
  obtain w2 where "perform W cs w1 = (Ok (), w2)" "contents w2 = contents w1 @ concat (map call_words cs)"
    using Cons by blast
  with w1 show ?case by (simp add: bindM_def)
qed

lemma borrowed_stream: "word_stream (borrowed W) contents"
  by unfold_locales (simp_all add: borrowed_def words_appended bytes_appended)

end

lemma vec_write_padded: "vec_write_padded_bytes bytes vec = (Ok (), vec @ pad_words bytes)"
  by (simp add: vec_write_padded_bytes_def pad_words_split Let_def bindM_run modM_def ret_def)

interpretation vec: word_stream vec_write "\<lambda>vec. vec"
  by unfold_locales (simp_all add: vec_write_def vec_write_words_def modM_def vec_write_padded)

interpretation vec_ref: word_stream "borrowed vec_write" "\<lambda>vec. vec"
  by (rule vec.borrowed_stream)

end
