(* ===== verification/Serializer.thy ===== *)
theory Serializer
  imports Word_Write
begin

text \<open>
  The word serializer of \<open>src/serializer/mod.rs\<close>: one operation per method of serde's data model,
  over any stream, and the serialization of a value of that model. The writes a value makes are
  its trace, and on a stream that accepts them they add up to its encoding.
\<close>

section \<open>Values\<close>

text \<open>
  serde's data model. Floats are their bits, a character its code point, a string its UTF-8
  bytes, an enumeration variant its index. A sequence or map carries the length that its
  \<open>Serialize\<close> implementation announces, if it announces one. \<open>VDisplay\<close> is a value whose
  implementation calls \<open>collect_str\<close>; \<open>VByFormat\<close> is one whose implementation asks whether the
  format is human readable and has a form for each answer.
\<close>

datatype ser_value =
    VBool bool
  | VI8 u8 | VI16 "16 word" | VI32 u32 | VI64 u64 | VI128 "128 word"
  | VU8 u8 | VU16 "16 word" | VU32 u32 | VU64 u64 | VU128 "128 word"
  | VF32 u32 | VF64 u64
  | VChar u32
  | VStr "u8 list"
  | VBytes "u8 list"
  | VNone
  | VSome ser_value
  | VUnit
  | VUnitStruct
  | VUnitVariant u32
  | VNewtypeStruct ser_value
  | VNewtypeVariant u32 ser_value
  | VSeq "nat option" "ser_value list"
  | VTuple "ser_value list"
  | VTupleStruct "ser_value list"
  | VTupleVariant u32 "ser_value list"
  | VMap "nat option" "(ser_value \<times> ser_value) list"
  | VStruct "ser_value list"
  | VStructVariant u32 "ser_value list"
  | VDisplay string
  | VByFormat (human: ser_value) (compact: ser_value)

section \<open>Primitive values\<close>

definition serialize_u32 :: "'w WordWrite \<Rightarrow> u32 \<Rightarrow> 'w ser" where
  "serialize_u32 W v = on_stream (write_words W [v])"

definition serialize_u8 :: "'w WordWrite \<Rightarrow> u8 \<Rightarrow> 'w ser" where
  "serialize_u8 W v = serialize_u32 W (ucast v)"

definition serialize_u16 :: "'w WordWrite \<Rightarrow> 16 word \<Rightarrow> 'w ser" where
  "serialize_u16 W v = serialize_u32 W (ucast v)"

definition serialize_u64 :: "'w WordWrite \<Rightarrow> u64 \<Rightarrow> 'w ser" where
  "serialize_u64 W v =
     bindM (serialize_u32 W (ucast (v AND 0xFFFFFFFF))) (\<lambda>_.
     serialize_u32 W (ucast (drop_bit 32 v AND 0xFFFFFFFF)))"

text \<open>\<open>u128::to_le_bytes\<close>.\<close>

definition le_bytes128 :: "128 word \<Rightarrow> u8 list" where
  "le_bytes128 v = map (\<lambda>k. ucast (drop_bit (8 * k) v)) [0..<16]"

definition serialize_u128 :: "'w WordWrite \<Rightarrow> 128 word \<Rightarrow> 'w ser" where
  "serialize_u128 W v = on_stream (write_padded_bytes W (le_bytes128 v))"

definition serialize_bool :: "'w WordWrite \<Rightarrow> bool \<Rightarrow> 'w ser" where
  "serialize_bool W v = serialize_u8 W (if v then 1 else 0)"

text \<open>A signed integer is the word of its two's complement; widening extends the sign.\<close>

definition serialize_i32 :: "'w WordWrite \<Rightarrow> u32 \<Rightarrow> 'w ser" where
  "serialize_i32 W v = serialize_u32 W v"

definition serialize_i8 :: "'w WordWrite \<Rightarrow> u8 \<Rightarrow> 'w ser" where
  "serialize_i8 W v = serialize_i32 W (scast v)"

definition serialize_i16 :: "'w WordWrite \<Rightarrow> 16 word \<Rightarrow> 'w ser" where
  "serialize_i16 W v = serialize_i32 W (scast v)"

definition serialize_i64 :: "'w WordWrite \<Rightarrow> u64 \<Rightarrow> 'w ser" where
  "serialize_i64 W v = serialize_u64 W v"

definition serialize_i128 :: "'w WordWrite \<Rightarrow> 128 word \<Rightarrow> 'w ser" where
  "serialize_i128 W v = serialize_u128 W v"

definition serialize_f32 :: "'w WordWrite \<Rightarrow> u32 \<Rightarrow> 'w ser" where
  "serialize_f32 W bits = serialize_u32 W bits"

definition serialize_f64 :: "'w WordWrite \<Rightarrow> u64 \<Rightarrow> 'w ser" where
  "serialize_f64 W bits = serialize_u64 W bits"

definition serialize_char :: "'w WordWrite \<Rightarrow> u32 \<Rightarrow> 'w ser" where
  "serialize_char W v = serialize_u32 W v"

definition serialize_bytes :: "'w WordWrite \<Rightarrow> u8 list \<Rightarrow> 'w ser" where
  "serialize_bytes W v =
     bindM (serialize_u32 W (of_nat (length v))) (\<lambda>_. on_stream (write_padded_bytes W v))"

definition serialize_str :: "'w WordWrite \<Rightarrow> u8 list \<Rightarrow> 'w ser" where
  "serialize_str W v =
     bindM (serialize_u32 W (of_nat (length v))) (\<lambda>_. on_stream (write_padded_bytes W v))"

text \<open>The header of a sequence or map: \<open>try_into().unwrap()\<close> panics beyond 32 bits.\<close>

definition serialize_len :: "'w WordWrite \<Rightarrow> nat option \<Rightarrow> 'w ser" where
  "serialize_len W len =
     (case len of
        Some val \<Rightarrow> if val < 2 ^ 32 then serialize_u32 W (of_nat val) else panicM UnwrapFailed
      | None \<Rightarrow> throw NotSupported)"

text \<open>\<open>collect_str\<close> panics.\<close>

definition collect_str :: "'w WordWrite \<Rightarrow> string \<Rightarrow> 'w ser" where
  "collect_str W s = panicM ExplicitPanic"

text \<open>The format is a binary one.\<close>

definition is_human_readable :: bool where
  "is_human_readable = False"

section \<open>Serialization\<close>

text \<open>
  A value calls the method of its kind; a compound calls the header's method and then
  serializes its elements in order.
\<close>

function (sequential) serialize :: "'w WordWrite \<Rightarrow> ser_value \<Rightarrow> 'w ser"
  and serialize_all :: "'w WordWrite \<Rightarrow> ser_value list \<Rightarrow> 'w ser"
  and serialize_entries :: "'w WordWrite \<Rightarrow> (ser_value \<times> ser_value) list \<Rightarrow> 'w ser" where
  "serialize W (VBool b) = serialize_bool W b"
| "serialize W (VI8 v) = serialize_i8 W v"
| "serialize W (VI16 v) = serialize_i16 W v"
| "serialize W (VI32 v) = serialize_i32 W v"
| "serialize W (VI64 v) = serialize_i64 W v"
| "serialize W (VI128 v) = serialize_i128 W v"
| "serialize W (VU8 v) = serialize_u8 W v"
| "serialize W (VU16 v) = serialize_u16 W v"
| "serialize W (VU32 v) = serialize_u32 W v"
| "serialize W (VU64 v) = serialize_u64 W v"
| "serialize W (VU128 v) = serialize_u128 W v"
| "serialize W (VF32 v) = serialize_f32 W v"
| "serialize W (VF64 v) = serialize_f64 W v"
| "serialize W (VChar v) = serialize_char W v"
| "serialize W (VStr v) = serialize_str W v"
| "serialize W (VBytes v) = serialize_bytes W v"
| "serialize W VNone = serialize_u32 W 0"
| "serialize W (VSome v) = bindM (serialize_u32 W 1) (\<lambda>_. serialize W v)"
| "serialize W VUnit = ret ()"
| "serialize W VUnitStruct = ret ()"
| "serialize W (VUnitVariant i) = serialize_u32 W i"
| "serialize W (VNewtypeStruct v) = serialize W v"
| "serialize W (VNewtypeVariant i v) = bindM (serialize_u32 W i) (\<lambda>_. serialize W v)"
| "serialize W (VSeq len vs) = bindM (serialize_len W len) (\<lambda>_. serialize_all W vs)"
| "serialize W (VTuple vs) = serialize_all W vs"
| "serialize W (VTupleStruct vs) = serialize_all W vs"
| "serialize W (VTupleVariant i vs) = bindM (serialize_u32 W i) (\<lambda>_. serialize_all W vs)"
| "serialize W (VMap len kvs) = bindM (serialize_len W len) (\<lambda>_. serialize_entries W kvs)"
| "serialize W (VStruct vs) = serialize_all W vs"
| "serialize W (VStructVariant i vs) = bindM (serialize_u32 W i) (\<lambda>_. serialize_all W vs)"
| "serialize W (VDisplay s) = collect_str W s"
| "serialize W (VByFormat h c) = (if is_human_readable then serialize W h else serialize W c)"
| "serialize_all W [] = ret ()"
| "serialize_all W (v # vs) = bindM (serialize W v) (\<lambda>_. serialize_all W vs)"
| "serialize_entries W [] = ret ()"
| "serialize_entries W ((k, v) # kvs) =
     bindM (serialize W k) (\<lambda>_. bindM (serialize W v) (\<lambda>_. serialize_entries W kvs))"
  by pat_completeness auto
termination
  by (relation "measure (case_sum (size \<circ> snd)
      (case_sum (size_list size \<circ> snd) (size_list (size_prod size size) \<circ> snd)))") auto

text \<open>The serializer is on a borrow of the new vector.\<close>

definition to_vec :: "ser_value \<Rightarrow> (ser_error, u32 list) outcome" where
  "to_vec v = (case serialize (borrowed vec_write) v (new_serializer []) of
       (Ok _, s) \<Rightarrow> Ok (stream s)
     | (Err e, _) \<Rightarrow> Err e
     | (Panic p, _) \<Rightarrow> Panic p
     | (Hang, _) \<Rightarrow> Hang)"

section \<open>The encoding\<close>

text \<open>
  The reference: the words of a value, and, separately, the first fault that stops its
  serialization.
\<close>

lemma size_list_member: "x \<in> set xs \<Longrightarrow> f x \<le> size_list f xs"
  by (induction xs) auto

function (sequential) encode :: "ser_value \<Rightarrow> u32 list"
  and encode_entry :: "ser_value \<times> ser_value \<Rightarrow> u32 list" where
  "encode (VBool b) = [if b then 1 else 0]"
| "encode (VI8 v) = [scast v]"
| "encode (VI16 v) = [scast v]"
| "encode (VI32 v) = [v]"
| "encode (VI64 v) = [ucast v, ucast (drop_bit 32 v)]"
| "encode (VI128 v) = pad_words (le_bytes128 v)"
| "encode (VU8 v) = [ucast v]"
| "encode (VU16 v) = [ucast v]"
| "encode (VU32 v) = [v]"
| "encode (VU64 v) = [ucast v, ucast (drop_bit 32 v)]"
| "encode (VU128 v) = pad_words (le_bytes128 v)"
| "encode (VF32 v) = [v]"
| "encode (VF64 v) = [ucast v, ucast (drop_bit 32 v)]"
| "encode (VChar v) = [v]"
| "encode (VStr bs) = of_nat (length bs) # pad_words bs"
| "encode (VBytes bs) = of_nat (length bs) # pad_words bs"
| "encode VNone = [0]"
| "encode (VSome v) = 1 # encode v"
| "encode VUnit = []"
| "encode VUnitStruct = []"
| "encode (VUnitVariant i) = [i]"
| "encode (VNewtypeStruct v) = encode v"
| "encode (VNewtypeVariant i v) = i # encode v"
| "encode (VSeq len vs) = of_nat (the len) # concat (map encode vs)"
| "encode (VTuple vs) = concat (map encode vs)"
| "encode (VTupleStruct vs) = concat (map encode vs)"
| "encode (VTupleVariant i vs) = i # concat (map encode vs)"
| "encode (VMap len kvs) = of_nat (the len) # concat (map encode_entry kvs)"
| "encode (VStruct vs) = concat (map encode vs)"
| "encode (VStructVariant i vs) = i # concat (map encode vs)"
| "encode (VDisplay s) = []"
| "encode (VByFormat h c) = encode c"
| "encode_entry (k, v) = encode k @ encode v"
  by pat_completeness auto
termination
  by (relation "measure (case_sum size (size_prod size size))")
    (auto simp: less_Suc_eq_le intro: size_list_member le_trans [OF _ le_add2])

definition or_else :: "'a option \<Rightarrow> 'a option \<Rightarrow> 'a option" where
  "or_else x y = (case x of None \<Rightarrow> y | Some _ \<Rightarrow> x)"

definition len_fault :: "nat option \<Rightarrow> (ser_error + panic) option" where
  "len_fault len = (case len of None \<Rightarrow> Some (Inl NotSupported)
     | Some n \<Rightarrow> if n < 2 ^ 32 then None else Some (Inr UnwrapFailed))"

function (sequential) fault :: "ser_value \<Rightarrow> (ser_error + panic) option"
  and entry_fault :: "ser_value \<times> ser_value \<Rightarrow> (ser_error + panic) option" where
  "fault (VSome v) = fault v"
| "fault (VNewtypeStruct v) = fault v"
| "fault (VNewtypeVariant i v) = fault v"
| "fault (VSeq len vs) = or_else (len_fault len) (foldr or_else (map fault vs) None)"
| "fault (VTuple vs) = foldr or_else (map fault vs) None"
| "fault (VTupleStruct vs) = foldr or_else (map fault vs) None"
| "fault (VTupleVariant i vs) = foldr or_else (map fault vs) None"
| "fault (VMap len kvs) = or_else (len_fault len) (foldr or_else (map entry_fault kvs) None)"
| "fault (VStruct vs) = foldr or_else (map fault vs) None"
| "fault (VStructVariant i vs) = foldr or_else (map fault vs) None"
| "fault (VDisplay s) = Some (Inr ExplicitPanic)"
| "fault (VByFormat h c) = fault c"
| "fault _ = None"
| "entry_fault (k, v) = or_else (fault k) (fault v)"
  by pat_completeness auto
termination
  by (relation "measure (case_sum size (size_prod size size))")
    (auto simp: less_Suc_eq_le intro: size_list_member le_trans [OF _ le_add2])

lemma or_else_simps [simp]: "or_else None y = y" "or_else (Some a) y = Some a"
  by (simp_all add: or_else_def)

section \<open>The writes of a value\<close>

text \<open>
  The trace of a serialization: the writes it makes, in order, and how it ends by itself. A trace
  that ends with a fault has no continuation.
\<close>

type_synonym trace = "write_call list \<times> (ser_error + panic) option"

definition end_with :: "(ser_error + panic) option \<Rightarrow> ('s, ser_error, unit) M" where
  "end_with f = (case f of None \<Rightarrow> ret () | Some (Inl e) \<Rightarrow> throw e | Some (Inr p) \<Rightarrow> panicM p)"

definition run_trace :: "'w WordWrite \<Rightarrow> trace \<Rightarrow> 'w ser" where
  "run_trace W t = bindM (on_stream (perform W (fst t))) (\<lambda>_. end_with (snd t))"

fun then_trace :: "trace \<Rightarrow> trace \<Rightarrow> trace" where
  "then_trace (cs, None) (ds, g) = (cs @ ds, g)"
| "then_trace (cs, Some f) u = (cs, Some f)"

definition traces :: "trace list \<Rightarrow> trace" where
  "traces ts = foldr then_trace ts ([], None)"

definition len_trace :: "nat option \<Rightarrow> trace" where
  "len_trace len =
     (if len_fault len = None then ([Words [of_nat (the len)]], None) else ([], len_fault len))"

function (sequential) trace :: "ser_value \<Rightarrow> trace"
  and entry_trace :: "ser_value \<times> ser_value \<Rightarrow> trace" where
  "trace (VStr bs) = ([Words [of_nat (length bs)], Padded bs], None)"
| "trace (VBytes bs) = ([Words [of_nat (length bs)], Padded bs], None)"
| "trace (VI128 v) = ([Padded (le_bytes128 v)], None)"
| "trace (VU128 v) = ([Padded (le_bytes128 v)], None)"
| "trace (VI64 v) = ([Words [ucast v], Words [ucast (drop_bit 32 v)]], None)"
| "trace (VU64 v) = ([Words [ucast v], Words [ucast (drop_bit 32 v)]], None)"
| "trace (VF64 v) = ([Words [ucast v], Words [ucast (drop_bit 32 v)]], None)"
| "trace VUnit = ([], None)"
| "trace VUnitStruct = ([], None)"
| "trace (VSome v) = then_trace ([Words [1]], None) (trace v)"
| "trace (VNewtypeStruct v) = trace v"
| "trace (VNewtypeVariant i v) = then_trace ([Words [i]], None) (trace v)"
| "trace (VSeq len vs) = then_trace (len_trace len) (traces (map trace vs))"
| "trace (VTuple vs) = traces (map trace vs)"
| "trace (VTupleStruct vs) = traces (map trace vs)"
| "trace (VTupleVariant i vs) = then_trace ([Words [i]], None) (traces (map trace vs))"
| "trace (VMap len kvs) = then_trace (len_trace len) (traces (map entry_trace kvs))"
| "trace (VStruct vs) = traces (map trace vs)"
| "trace (VStructVariant i vs) = then_trace ([Words [i]], None) (traces (map trace vs))"
| "trace (VDisplay s) = ([], Some (Inr ExplicitPanic))"
| "trace (VByFormat h c) = trace c"
| "trace v = ([Words (encode v)], None)"
| "entry_trace (k, v) = then_trace (trace k) (trace v)"
  by pat_completeness auto
termination
  by (relation "measure (case_sum size (size_prod size size))")
    (auto simp: less_Suc_eq_le intro: size_list_member le_trans [OF _ le_add2])

lemma run_then: "bindM (run_trace W t) (\<lambda>_. run_trace W u) = run_trace W (then_trace t u)"
proof (cases t)
  case (Pair cs f)
  show ?thesis
  proof (cases f)
    case None
    with Pair show ?thesis
      by (cases u) (simp add: run_trace_def end_with_def perform_append on_stream_bind bindM_seq bindM_units)
  next
    case (Some x)
    with Pair show ?thesis
      by (cases x) (simp_all add: run_trace_def end_with_def bindM_seq bindM_stops)
  qed
qed

lemma then_trace_assoc: "then_trace (then_trace t u) v = then_trace t (then_trace u v)"
  by (cases "(t, u)" rule: then_trace.cases; cases "(u, v)" rule: then_trace.cases) auto

lemma traces_simps [simp]: "traces [] = ([], None)" "traces (t # ts) = then_trace t (traces ts)"
  by (simp_all add: traces_def)

lemma run_words: "run_trace W ([Words ws], None) = on_stream (write_words W ws)"
  by (simp add: run_trace_def end_with_def bindM_units on_stream_ret)

lemma run_padded: "run_trace W ([Padded bs], None) = on_stream (write_padded_bytes W bs)"
  by (simp add: run_trace_def end_with_def bindM_units on_stream_ret)

lemma run_end: "run_trace W ([], f) = end_with f"
  by (simp add: fun_eq_iff run_trace_def on_stream_ret bindM_ret)

lemma and_ffffffff: "(ucast ((v :: u64) AND 0xFFFFFFFF) :: u32) = ucast v"
proof -
  have m: "(0xFFFFFFFF :: u64) = mask 32" by (simp add: mask_eq_exp_minus_1)
  show ?thesis unfolding m by (rule bit_word_eqI) (simp add: bit_simps)
qed

text \<open>The methods of the serializer as traces.\<close>

lemma u32_trace: "serialize_u32 W v = run_trace W ([Words [v]], None)"
  by (simp add: serialize_u32_def run_words)

lemma u64_trace: "serialize_u64 W v = run_trace W ([Words [ucast v], Words [ucast (drop_bit 32 v)]], None)"
  by (simp add: serialize_u64_def and_ffffffff u32_trace run_then)

lemma u128_trace: "serialize_u128 W v = run_trace W ([Padded (le_bytes128 v)], None)"
  by (simp add: serialize_u128_def run_padded)

lemma bytes_trace:
  "serialize_str W bs = run_trace W ([Words [of_nat (length bs)], Padded bs], None)"
  "serialize_bytes W bs = run_trace W ([Words [of_nat (length bs)], Padded bs], None)"
  by (simp_all add: serialize_str_def serialize_bytes_def u32_trace run_padded [symmetric] run_then)

lemma len_trace: "serialize_len W len = run_trace W (len_trace len)"
  by (auto simp: serialize_len_def len_trace_def len_fault_def u32_trace run_end end_with_def split: option.split)

lemma end_trace: "ret () = run_trace W ([], None)" "collect_str W s = run_trace W ([], Some (Inr ExplicitPanic))"
  by (simp_all add: run_end end_with_def collect_str_def)

lemmas serialize_narrow =
  serialize_bool_def serialize_u8_def serialize_u16_def serialize_i8_def serialize_i16_def
  serialize_i32_def serialize_i64_def serialize_i128_def serialize_f32_def serialize_f64_def serialize_char_def

lemmas method_traces = u32_trace u64_trace u128_trace bytes_trace len_trace end_trace

lemma serialize_trace:
  "serialize W v = run_trace W (trace v)"
  "serialize_all W vs = run_trace W (traces (map trace vs))"
  "serialize_entries W kvs = run_trace W (traces (map entry_trace kvs))"
proof (induction W v and W vs and W kvs rule: serialize_serialize_all_serialize_entries.induct)
qed (simp_all add: serialize_narrow method_traces run_then then_trace_assoc is_human_readable_def)

text \<open>The trace ends with the value's fault; without a fault its words are the encoding.\<close>

lemma snd_then_trace: "snd (then_trace t u) = or_else (snd t) (snd u)"
  by (cases "(t, u)" rule: then_trace.cases) simp_all

lemma snd_traces: "snd (traces ts) = foldr or_else (map snd ts) None"
  by (induction ts) (simp_all add: snd_then_trace)

lemma trace_fault: "snd (trace v) = fault v" "snd (entry_trace kv) = entry_fault kv"
  by (induction v and kv rule: trace_entry_trace.induct)
    (auto simp: snd_then_trace snd_traces len_trace_def comp_def cong: map_cong)

abbreviation trace_words :: "trace \<Rightarrow> u32 list" where
  "trace_words t \<equiv> concat (map call_words (fst t))"

lemma words_then_trace:
  "snd t = None \<Longrightarrow> trace_words (then_trace t u) = trace_words t @ trace_words u"
  by (cases "(t, u)" rule: then_trace.cases) simp_all

lemma words_traces:
  "snd (traces ts) = None \<Longrightarrow> trace_words (traces ts) = concat (map trace_words ts)"
  by (induction ts) (auto simp: snd_then_trace words_then_trace or_else_def split: option.splits)

lemma or_else_None: "or_else x y = None \<longleftrightarrow> x = None \<and> y = None"
  by (simp add: or_else_def split: option.split)

lemma traces_None: "snd (traces ts) = None \<longleftrightarrow> (\<forall>t \<in> set ts. snd t = None)"
  by (induction ts) (auto simp: snd_then_trace or_else_None)

lemma trace_encode:
  "snd (trace v) = None \<Longrightarrow> trace_words (trace v) = encode v"
  "snd (entry_trace kv) = None \<Longrightarrow> trace_words (entry_trace kv) = encode_entry kv"
proof (induction v and kv rule: trace_entry_trace.induct)
qed (auto simp: snd_then_trace or_else_None words_then_trace words_traces traces_None len_trace_def comp_def
      split: if_splits cong: map_cong)

section \<open>On a stream\<close>

definition fault_outcome :: "ser_error + panic \<Rightarrow> (ser_error, 'a) outcome" where
  "fault_outcome f = (case f of Inl e \<Rightarrow> Err e | Inr p \<Rightarrow> Panic p)"

context word_stream
begin

lemma serialize_appends:
  "\<exists>s' words. serialize W v s = (case fault v of None \<Rightarrow> Ok () | Some f \<Rightarrow> fault_outcome f, s') \<and>
     contents (stream s') = contents (stream s) @ words \<and> (fault v = None \<longrightarrow> words = encode v)"
proof -
  obtain w where w: "perform W (fst (trace v)) (stream s) = (Ok (), w)"
    "contents w = contents (stream s) @ trace_words (trace v)" using perform_appends by blast
  have "serialize W v s = (case fault v of None \<Rightarrow> Ok () | Some f \<Rightarrow> fault_outcome f, s\<lparr>stream := w\<rparr>)"
    by (auto simp: serialize_trace run_trace_def bindM_def on_stream_def w(1) trace_fault end_with_def
        fault_outcome_def ret_def throw_def panicM_def split: option.split sum.split)
  then show ?thesis using w(2) trace_encode(1) [of v] by (auto simp: trace_fault)
qed

end

lemma to_vec_spec: "to_vec v = (case fault v of None \<Rightarrow> Ok (encode v) | Some f \<Rightarrow> fault_outcome f)"
  using vec_ref.serialize_appends [of v "new_serializer []"]
  by (auto simp: to_vec_def new_serializer_def fault_outcome_def split: option.split sum.split)

text \<open>
  Property C20. Serialization is the encoding: a value without fault becomes its words, and a value
  with faults ends with the first of them (a length that is not announced is not supported, one
  beyond 32 bits panics, and so does a \<open>Display\<close> value).
\<close>

theorem to_vec_encodes:
  "to_vec v = (case fault v of None \<Rightarrow> Ok (encode v) | Some f \<Rightarrow> fault_outcome f)"
  by (rule to_vec_spec)

text \<open>
  Remark. Serializing never disturbs what the stream already holds, whether it succeeds or not.
\<close>

theorem serialize_only_appends:
  "\<exists>words. stream (snd (serialize vec_write v s)) = stream s @ words"
  using vec.serialize_appends [of v s] by auto

text \<open>
  Property C39. A write that the stream refuses ends the serialization: its error is the result, and
  nothing is written after it, whatever the stream is.
\<close>

theorem refused_write_ends_serialization:
  assumes "fst (trace v) = cs @ c # ds" and "perform W cs (stream s) = (Ok (), w)"
    and "make_call W c w = (Err e, w')"
  shows "serialize W v s = (Err e, s\<lparr>stream := w'\<rparr>)"
  using assms by (simp add: serialize_trace run_trace_def on_stream_def perform_append bindM_def)

lemma mod4_cases': obtains "(n :: nat) mod 4 = 0" | "n mod 4 = 1" | "n mod 4 = 2" | "n mod 4 = 3"
  using mod_less_divisor [of 4 n] by fastforce

lemma pad_to_4: "(n + (4 - n mod 4) mod 4) mod 4 = (0 :: nat)"
proof -
  have "(n + x) mod 4 = (n mod 4 + x) mod 4" for x by (rule mod_add_left_eq [symmetric])
  then show ?thesis by (cases n rule: mod4_cases') (simp_all only:, simp_all)
qed

lemma words_to_bytes_pad: "words_to_bytes (pad_words bs) = bs @ replicate ((4 - length bs mod 4) mod 4) 0"
  unfolding pad_words_def by (rule words_to_bytes_inverse) (simp add: pad_to_4)

text \<open>
  Remark. Padded bytes are the bytes, followed by at most three zeros up to a whole word.
\<close>

theorem padded_bytes_roundtrip:
  "\<exists>words k. vec_write_padded_bytes bs vec = (Ok (), vec @ words) \<and> k < 4 \<and>
     words_to_bytes words = bs @ replicate k 0"
  using vec_write_padded [of bs] words_to_bytes_pad [of bs]
  by (auto intro!: exI [of _ "(4 - length bs mod 4) mod 4"])

lemma to_vec_zeros:
  "to_vec (VSeq (Some 64) (replicate 64 (VI32 0))) = Ok (64 # replicate 64 0)"
proof -
  have e: "concat (map encode (replicate n (VI32 0))) = replicate n 0" for n by (induction n) auto
  have f: "(or_else None ^^ n) None = None" for n by (induction n) auto
  have g: "fault (VSeq (Some n) (replicate n (VI32 0))) = None" if "n < 2 ^ 32" for n
    using that by (simp add: len_fault_def f)
  have "to_vec (VSeq (Some n) (replicate n (VI32 0))) = Ok (of_nat n # replicate n 0)" if "n < 2 ^ 32" for n
    using that unfolding to_vec_spec g [OF that] by (simp add: e)
  from this [of 64] show ?thesis by simp
qed

text \<open>
  Remark. The input that \<open>main\<close> feeds to the program, 64 zeros as a vector of 32-bit
  integers, is 65 words: the length and the elements.
\<close>

theorem main_input_words:
  "to_vec (VSeq (Some 64) (replicate 64 (VI32 0))) = Ok (64 # replicate 64 0)"
  by (rule to_vec_zeros)

section \<open>The encoding determines the value\<close>

text \<open>
  Values of one Rust type, as far as their shape goes: the same kind of value, elementwise; for
  an enumeration either the same variant or two different ones. Lengths are announced and fit
  into a word.
\<close>

fun variant_tag :: "ser_value \<Rightarrow> u32 option" where
  "variant_tag (VUnitVariant i) = Some i"
| "variant_tag (VNewtypeVariant i v) = Some i"
| "variant_tag (VTupleVariant i vs) = Some i"
| "variant_tag (VStructVariant i vs) = Some i"
| "variant_tag _ = None"

inductive same_type :: "ser_value \<Rightarrow> ser_value \<Rightarrow> bool"
  and same_types :: "ser_value list \<Rightarrow> ser_value list \<Rightarrow> bool"
  and same_entries :: "(ser_value \<times> ser_value) list \<Rightarrow> (ser_value \<times> ser_value) list \<Rightarrow> bool" where
  "same_type (VBool a) (VBool b)"
| "same_type (VI8 a8) (VI8 b8)" | "same_type (VI16 a16) (VI16 b16)" | "same_type (VI32 a32) (VI32 b32)"
| "same_type (VI64 a64) (VI64 b64)" | "same_type (VI128 a128) (VI128 b128)"
| "same_type (VU8 a8) (VU8 b8)" | "same_type (VU16 a16) (VU16 b16)" | "same_type (VU32 a32) (VU32 b32)"
| "same_type (VU64 a64) (VU64 b64)" | "same_type (VU128 a128) (VU128 b128)"
| "same_type (VF32 a32) (VF32 b32)" | "same_type (VF64 a64) (VF64 b64)"
| "same_type (VChar a32) (VChar b32)"
| "length as < 2 ^ 32 \<Longrightarrow> length bs < 2 ^ 32 \<Longrightarrow> same_type (VStr as) (VStr bs)"
| "length as < 2 ^ 32 \<Longrightarrow> length bs < 2 ^ 32 \<Longrightarrow> same_type (VBytes as) (VBytes bs)"
| "same_type VNone VNone" | "same_type VNone (VSome v)" | "same_type (VSome v) VNone"
| "same_type v w \<Longrightarrow> same_type (VSome v) (VSome w)"
| "same_type VUnit VUnit" | "same_type VUnitStruct VUnitStruct"
| "variant_tag v = Some i \<Longrightarrow> variant_tag w = Some j \<Longrightarrow> i \<noteq> j \<Longrightarrow> same_type v w"
| "same_type (VUnitVariant i) (VUnitVariant i)"
| "same_type v w \<Longrightarrow> same_type (VNewtypeStruct v) (VNewtypeStruct w)"
| "same_type v w \<Longrightarrow> same_type (VNewtypeVariant i v) (VNewtypeVariant i w)"
| "same_types vs ws \<Longrightarrow> length vs < 2 ^ 32 \<Longrightarrow> length ws < 2 ^ 32 \<Longrightarrow>
     same_type (VSeq (Some (length vs)) vs) (VSeq (Some (length ws)) ws)"
| "same_types vs ws \<Longrightarrow> length vs = length ws \<Longrightarrow> same_type (VTuple vs) (VTuple ws)"
| "same_types vs ws \<Longrightarrow> length vs = length ws \<Longrightarrow> same_type (VTupleStruct vs) (VTupleStruct ws)"
| "same_types vs ws \<Longrightarrow> length vs = length ws \<Longrightarrow> same_type (VTupleVariant i vs) (VTupleVariant i ws)"
| "same_entries kvs kws \<Longrightarrow> length kvs < 2 ^ 32 \<Longrightarrow> length kws < 2 ^ 32 \<Longrightarrow>
     same_type (VMap (Some (length kvs)) kvs) (VMap (Some (length kws)) kws)"
| "same_types vs ws \<Longrightarrow> length vs = length ws \<Longrightarrow> same_type (VStruct vs) (VStruct ws)"
| "same_types vs ws \<Longrightarrow> length vs = length ws \<Longrightarrow> same_type (VStructVariant i vs) (VStructVariant i ws)"
| "same_types [] ws" | "same_types vs []"
| "same_type v w \<Longrightarrow> same_types vs ws \<Longrightarrow> same_types (v # vs) (w # ws)"
| "same_entries [] kws" | "same_entries kvs []"
| "same_type k l \<Longrightarrow> same_type v w \<Longrightarrow> same_entries kvs kws \<Longrightarrow>
     same_entries ((k, v) # kvs) ((l, w) # kws)"

lemma length_pad_words: "length (pad_words bs) = (length bs + (4 - length bs mod 4) mod 4) div 4"
  by (simp add: pad_words_def)

lemma pad_words_inj:
  assumes "pad_words as @ r = pad_words bs @ r'" and "length as = length bs"
  shows "as = bs \<and> r = r'"
proof -
  from assms have "pad_words as = pad_words bs" "r = r'"
    using length_pad_words [of as] length_pad_words [of bs] by simp_all
  then show ?thesis using words_to_bytes_pad [of as] words_to_bytes_pad [of bs] assms(2)
    by (metis append_eq_append_conv)
qed

lemma str_inj:
  assumes "of_nat (length as) # pad_words as @ r = (of_nat (length bs) :: u32) # pad_words bs @ r'"
    and "length as < 4294967296" and "length bs < 4294967296"
  shows "as = bs \<and> r = r'"
proof -
  have "length as = length bs" using assms by (metis list.inject unat_of_nat32)
  with pad_words_inj assms(1) show ?thesis by blast
qed

lemma word64_halves:
  assumes "(ucast a :: u32) = ucast b" and "(ucast (drop_bit 32 a) :: u32) = ucast (drop_bit 32 (b :: u64))"
  shows "a = b"
proof (rule bit_word_eqI)
  fix n assume "n < LENGTH(64)"
  show "bit a n = bit b n"
  proof (cases "n < 32")
    case True
    from arg_cong [OF assms(1), of "\<lambda>w. bit w n"] True show ?thesis by (simp add: bit_simps)
  next
    case False
    note * = arg_cong [OF assms(2), of "\<lambda>w. bit w (n - 32)"]
    from False \<open>n < LENGTH(64)\<close> have "n - 32 < 32" by simp
    with * False show ?thesis by (simp add: bit_simps)
  qed
qed

lemma le_bytes128_inj: "le_bytes128 a = le_bytes128 b \<Longrightarrow> a = b"
proof (rule bit_word_eqI)
  fix n assume eq: "le_bytes128 a = le_bytes128 b" and n: "n < LENGTH(128)"
  have "n div 8 < 16" using n by (simp add: div_less_iff_less_mult)
  with eq have "(ucast (drop_bit (8 * (n div 8)) a) :: u8) = ucast (drop_bit (8 * (n div 8)) b)"
    by (auto simp: le_bytes128_def)
  from arg_cong [OF this, of "\<lambda>w. bit w (n mod 8)"] show "bit a n = bit b n"
    using n by (simp add: bit_simps)
qed

lemma length_le_bytes128 [simp]: "length (le_bytes128 v) = 16"
  by (simp add: le_bytes128_def)

lemma u128_inj: "pad_words (le_bytes128 a) @ r = pad_words (le_bytes128 b) @ r' \<Longrightarrow> a = b \<and> r = r'"
  using pad_words_inj [of "le_bytes128 a" r "le_bytes128 b" r'] le_bytes128_inj by simp

lemma ucast_down_u32:
  "(ucast (ucast (x :: u8) :: u32) :: u8) = x" "(ucast (ucast (z :: 16 word) :: u32) :: 16 word) = z"
  by (rule bit_word_eqI; simp add: bit_simps)+

lemma ucast_u32_inj:
  "(ucast (x :: u8) :: u32) = ucast y \<longleftrightarrow> x = y" "(ucast (z :: 16 word) :: u32) = ucast w \<longleftrightarrow> z = w"
  by (metis ucast_down_u32)+

lemma narrow_inj:
  "(scast (a8 :: u8) :: u32) = scast b8 \<longleftrightarrow> a8 = b8"
  "(scast (a16 :: 16 word) :: u32) = scast b16 \<longleftrightarrow> a16 = b16"
  "(ucast a8 :: u32) = ucast b8 \<longleftrightarrow> a8 = b8"
  "(ucast a16 :: u32) = ucast b16 \<longleftrightarrow> a16 = b16"
proof -
  show "(scast a8 :: u32) = scast b8 \<longleftrightarrow> a8 = b8"
  proof
    assume e: "(scast a8 :: u32) = scast b8"
    show "a8 = b8"
    proof (rule bit_word_eqI)
      fix n assume "n < LENGTH(8)"
      with arg_cong [OF e, of "\<lambda>w. bit w n"] show "bit a8 n = bit b8 n" by (simp add: bit_simps)
    qed
  qed simp
  show "(scast a16 :: u32) = scast b16 \<longleftrightarrow> a16 = b16"
  proof
    assume e: "(scast a16 :: u32) = scast b16"
    show "a16 = b16"
    proof (rule bit_word_eqI)
      fix n assume "n < LENGTH(16)"
      with arg_cong [OF e, of "\<lambda>w. bit w n"] show "bit a16 n = bit b16 n" by (simp add: bit_simps)
    qed
  qed simp
qed (simp_all add: ucast_u32_inj)

lemma variant_tag_encode: "variant_tag v = Some i \<Longrightarrow> \<exists>ws. encode v = i # ws"
  by (cases v) auto

lemma of_nat_len_inj:
  "(of_nat m :: u32) = of_nat n \<Longrightarrow> m < 4294967296 \<Longrightarrow> n < 4294967296 \<Longrightarrow> m = n"
  by (metis unat_of_nat32)


lemma encode_inj:
  "same_type v w \<Longrightarrow> encode v @ r = encode w @ r' \<Longrightarrow> v = w \<and> r = r'"
  "same_types vs ws \<Longrightarrow> length vs = length ws \<Longrightarrow>
     concat (map encode vs) @ r = concat (map encode ws) @ r' \<Longrightarrow> vs = ws \<and> r = r'"
  "same_entries kvs kws \<Longrightarrow> length kvs = length kws \<Longrightarrow>
     concat (map encode_entry kvs) @ r = concat (map encode_entry kws) @ r' \<Longrightarrow> kvs = kws \<and> r = r'"
proof (induction arbitrary: r r' and r r' and r r' rule: same_type_same_types_same_entries.inducts)
  case (15 as bs)
  then show ?case using str_inj [of as r bs r'] by simp
next
  case (16 as bs)
  then show ?case using str_inj [of as r bs r'] by simp
next
  case (23 v i w j)
  then show ?case using variant_tag_encode [of v i] variant_tag_encode [of w j] by auto
next
  case (27 vs ws)
  then have "length vs = length ws" using of_nat_len_inj [of "length vs" "length ws"] by simp
  with 27 show ?case by simp
next
  case (31 kvs kws)
  then have "length kvs = length kws" using of_nat_len_inj [of "length kvs" "length kws"] by simp
  with 31 show ?case by simp
next
  case (36 v w vs ws)
  from "36.prems" have "encode v @ (concat (map encode vs) @ r) = encode w @ (concat (map encode ws) @ r')" by simp
  from "36.IH"(1) [OF this] "36.IH"(2) [of r r'] "36.prems" show ?case by simp
next
  case (39 k l v w kvs kws)
  from "39.prems" have "encode k @ (encode v @ concat (map encode_entry kvs) @ r) =
      encode l @ (encode w @ concat (map encode_entry kws) @ r')" by simp
  from "39.IH"(1) [OF this]
  have "k = l" "encode v @ (concat (map encode_entry kvs) @ r) = encode w @ (concat (map encode_entry kws) @ r')"
    by simp_all
  with "39.IH"(2) [OF this(2)] "39.IH"(3) [of r r'] "39.prems" show ?case by simp
qed (auto simp: narrow_inj dest: u128_inj word64_halves split: if_splits)

lemma same_type_encoding:
  assumes "same_type v w" and "to_vec v = Ok vs" and "to_vec w = Ok ws" and "vs @ r = ws @ r'"
  shows "v = w \<and> r = r'"
proof -
  have "vs = encode v" "ws = encode w"
    using assms(2,3) by (auto simp: to_vec_spec fault_outcome_def split: option.splits sum.splits)
  with assms(1,4) encode_inj(1) show ?thesis by blast
qed

end
