(* ===== verification/Main_Program.thy ===== *)
theory Main_Program
  imports Event_Loop Loader Serializer
begin

text \<open>
  The program of \<open>src/main.rs\<close>: it loads the file, feeds the input, hands over to the debugger,
  and prints what the guest has written.
\<close>

section \<open>The program\<close>

text \<open>What is printed on the console, in order.\<close>

datatype line =
    SessionLine takeover_msg
  | SizeLine string nat
  | TextLine "u8 list"

type_synonym 'a console = "(line list, unit, 'a) M"

text \<open>\<open>unwrap\<close>.\<close>

fun unwrap :: "('e, 'a) outcome \<Rightarrow> 'a console" where
  "unwrap (Ok x) = ret x"
| "unwrap (Err e) = panicM UnwrapFailed"
| "unwrap (Panic p) = panicM p"
| "unwrap Hang = (\<lambda>l. (Hang, l))"

text \<open>The input: a vector of 64 zeros.\<close>

definition main_input :: ser_value where
  "main_input = VSeq (Some 64) (replicate 64 (VI32 0))"

text \<open>Up to the hand-over: load the file, make the simulator, write its input.\<close>

definition boot :: "(u8 list \<Rightarrow> elf_file option) \<Rightarrow> u8 list \<Rightarrow> Simulator console" where
  "boot minimal_parse elf_data =
     (case load_elf minimal_parse elf_data default_memory of
        (r, m) \<Rightarrow>
          bindM (unwrap r) (\<lambda>entry.
          bindM (unwrap (to_vec main_input)) (\<lambda>words.
          case sim_write STDIN (words_to_bytes words) (new_simulator m entry Map.empty) of
            (w, s) \<Rightarrow> bindM (unwrap w) (\<lambda>_. ret s))))"

text \<open>A channel is printed when something was written to it; text that is not UTF-8 panics.\<close>

definition print_channel :: "string \<Rightarrow> nat \<Rightarrow> u8 list \<Rightarrow> unit console" where
  "print_channel label n text_bytes =
     (if n \<noteq> 0 then
        bindM (modM (\<lambda>l. l @ [SizeLine label n])) (\<lambda>_.
        if valid_utf8 text_bytes then modM (\<lambda>l. l @ [TextLine text_bytes])
        else panicM UnwrapFailed)
      else ret ())"

definition finish :: "Simulator \<Rightarrow> unit console" where
  "finish s =
     (case sim_read_to_end STDOUT [] s of
        (r, s1) \<Rightarrow>
          bindM (unwrap r) (\<lambda>out.
          case sim_read_to_end STDERR [] s1 of
            (r, s2) \<Rightarrow>
              bindM (unwrap r) (\<lambda>err.
              case sim_read_to_end JOURNAL [] s2 of
                (r, s3) \<Rightarrow>
                  bindM (unwrap r) (\<lambda>jrn.
                  bindM (print_channel ''stdout'' (length (get_ref (stdout s3))) out) (\<lambda>_.
                  bindM (print_channel ''stderr'' (length (get_ref (stderr s3))) err) (\<lambda>_.
                  print_channel ''journal'' (length (get_ref (journal s3))) jrn))))))"

text \<open>\<open>code\<close> is the contents of the file \<open>code\<close>, if it can be read.\<close>

definition main_program ::
    "externs \<Rightarrow> (u8 list \<Rightarrow> elf_file option) \<Rightarrow> net \<Rightarrow> (Debugger, stub_error, DisconnectReason) M
     \<Rightarrow> u8 list option \<Rightarrow> unit console" where
  "main_program ext minimal_parse net gdb_run code =
     (case code of
        None \<Rightarrow> panicM UnwrapFailed
      | Some elf_data \<Rightarrow>
          bindM (boot minimal_parse elf_data) (\<lambda>s.
          case debugger_takeover ext net gdb_run elf_data s of
            (r, s') \<Rightarrow>
              bindM (unwrap r) (\<lambda>msg.
              bindM (modM (\<lambda>l. l @ [SessionLine msg])) (\<lambda>_.
              finish s'))))"

section \<open>Properties\<close>

lemma byte_at_default: "byte_at default_memory = (\<lambda>_. 0)"
  by (simp add: byte_at_def word_at_def default_memory_def byte_of_def fun_eq_iff)

lemma guest_inv_default: "guest_inv default_memory"
  by (simp add: guest_inv_def mem_wf_def watchpoints_fit_def default_memory_def)

lemma main_input_ok: "to_vec main_input = Ok (64 # replicate 64 0)"
  unfolding main_input_def by (rule to_vec_zeros)

lemma guest_inv_callback:
  "guest_inv m \<Longrightarrow> guest_inv (with_session_cycle_callback default_scc m)"
  by (simp add: guest_inv_def mem_wf_def watchpoints_fit_def with_session_cycle_callback_def scc_wf_default)

lemma boot_ok:
  assumes "minimal_parse elf_data = Some file" and "elf_loadable elf_data file"
  shows "\<exists>s. boot minimal_parse elf_data l = (Ok s, l) \<and> sim_wf s \<and> guest_inv (mem s) \<and>
     hart_state s = \<lparr>registers = replicate 32 0, pc = ucast (e_entry file)\<rparr> \<and>
     byte_at (mem s) = fold (place_segment elf_data)
       (filter (\<lambda>x. p_type x = PT_LOAD) (the (segment_table file))) (\<lambda>_. 0) \<and>
     get_ref (stdin s) = words_to_bytes (64 # replicate 64 0) \<and> position (stdin s) = 0"
proof -
  obtain m where m: "load_elf minimal_parse elf_data default_memory = (Ok (ucast (e_entry file)), m)" "guest_inv m"
    "byte_at m = fold (place_segment elf_data)
       (filter (\<lambda>x. p_type x = PT_LOAD) (the (segment_table file))) (\<lambda>_. 0)"
    using load_elf_ok [where minimal_parse = minimal_parse and input = elf_data, OF guest_inv_default assms]
    by (auto simp: byte_at_default)
  let ?s = "new_simulator m (ucast (e_entry file)) Map.empty"
  let ?s' = "?s\<lparr>stdin := (stdin ?s)\<lparr>get_ref := get_ref (stdin ?s) @ words_to_bytes (64 # replicate 64 0)\<rparr>\<rparr>"
  have "boot minimal_parse elf_data l = (Ok ?s', l)"
    by (simp add: boot_def m(1) main_input_ok bindM_run sim_write_def modM_def ret_def del: words_to_bytes.simps)
  moreover have "sim_wf ?s'"
    using sim_wf_new [of m "ucast (e_entry file)" Map.empty] m(2)
    by (simp add: sim_wf_def guest_inv_def cursor_wf_def)
  moreover have "guest_inv (mem ?s')" using guest_inv_callback [OF m(2)] by (simp add: new_simulator_def)
  moreover have "hart_state ?s' = \<lparr>registers = replicate 32 0, pc = ucast (e_entry file)\<rparr>" "get_ref (stdin ?s') = words_to_bytes (64 # replicate 64 0)"
    "position (stdin ?s') = 0"
    by (simp_all add: new_simulator_def new_hart_def default_cursor_def del: words_to_bytes.simps)
  moreover have "byte_at (mem ?s') = byte_at m"
    by (simp add: new_simulator_def with_session_cycle_callback_def byte_at_def word_at_def fun_eq_iff)
  ultimately show ?thesis using m(3) by metis
qed

text \<open>
  Property C29. The program that is handed to the debugger starts at the file's entry point with all
  registers zero, in a memory that holds the file's segments and zeros elsewhere, with the input of 65 words waiting
  on its standard input; its state satisfies the invariants.
\<close>

theorem boot_ready:
  assumes "minimal_parse elf_data = Some file" and "elf_loadable elf_data file"
  shows "\<exists>s. boot minimal_parse elf_data l = (Ok s, l) \<and> sim_wf s \<and> guest_inv (mem s) \<and>
     hart_state s = \<lparr>registers = replicate 32 0, pc = ucast (e_entry file)\<rparr> \<and>
     byte_at (mem s) = fold (place_segment elf_data)
       (filter (\<lambda>x. p_type x = PT_LOAD) (the (segment_table file))) (\<lambda>_. 0) \<and>
     get_ref (stdin s) = words_to_bytes (64 # replicate 64 0) \<and> position (stdin s) = 0"
  using assms by (rule boot_ok)

text \<open>
  What is printed of the channels, in order, and how the printing ends: an empty one is left out; of another
  one the number of bytes that were ever written to it, and then what has not been read of it
  before, if that is a text; otherwise the printing stops there with a panic.
\<close>

fun printed :: "(string \<times> Cursor) list \<Rightarrow> (unit, unit) outcome \<times> line list" where
  "printed [] = (Ok (), [])"
| "printed ((label, c) # rest) =
     (let size = SizeLine label (length (get_ref c)); text_bytes = drop (position c) (get_ref c) in
      if get_ref c = [] then printed rest
      else if valid_utf8 text_bytes then
        (case printed rest of (r, ls) \<Rightarrow> (r, size # TextLine text_bytes # ls))
      else (Panic UnwrapFailed, [size]))"

lemma print_channel_run:
  "print_channel label n bs l =
     (if n = 0 then (Ok (), l)
      else if valid_utf8 bs then (Ok (), l @ [SizeLine label n, TextLine bs])
      else (Panic UnwrapFailed, l @ [SizeLine label n]))"
  by (simp add: print_channel_def bindM_run modM_def ret_def panicM_def)

lemma read_channel:
  assumes "get_write_fd fd s = (Ok ch, s)" and "c = get_channel ch s"
  shows "sim_read_to_end fd [] s = (Ok (drop (position c) (get_ref c)),
     set_channel ch (c\<lparr>position := position c + (length (get_ref c) - position c)\<rparr>) s)"
  using assms by (simp add: sim_read_to_end_def bindM_def getM_def modM_def ret_def cursor_read_def Let_def)

lemma finish_prints:
  "finish s l = (case printed [(''stdout'', stdout s), (''stderr'', stderr s), (''journal'', journal s)] of
     (r, ls) \<Rightarrow> (r, l @ ls))"
proof -
  have fd: "get_write_fd STDOUT t = (Ok ChStdout, t)" "get_write_fd STDERR t = (Ok ChStderr, t)"
    "get_write_fd JOURNAL t = (Ok ChJournal, t)" for t
    by (simp_all add: get_write_fd_def cfg_simps ret_def)
  show ?thesis
    by (simp add: finish_def read_channel [OF fd(1) refl] read_channel [OF fd(2) refl] read_channel [OF fd(3) refl]
        bindM_run bindM_def [of "print_channel a b c" for a b c] print_channel_run Let_def)
qed


end
