(* ===== verification/Session.thy ===== *)
theory Session
  imports Main_Program
begin

text \<open>
  Debugging sessions. The protocol stub is third-party code; what it can do to the program is
  given by the operations the target offers it (the \<open>support_\<close> methods of \<open>src/debug/\<close>) and
  by the event loop. A session is any sequence of these, and this theory shows what holds over
  all sessions, from the loading of the file to the end of the program.
\<close>

section \<open>What the protocol stub can ask for\<close>

text \<open>The base operations: registers and memory.\<close>

datatype base_call =
    ReadRegisters
  | WriteRegisters "u32 list \<times> u32"
  | ReadRegister RiscvRegId "u8 list"
  | WriteRegister RiscvRegId "u8 list"
  | ReadAddrs u32 "u8 list"
  | WriteAddrs u32 "u8 list"

text \<open>Resuming: continue, single step, range step. The reverse operations are not offered.\<close>

datatype resume_call =
    Resume "u8 option"
  | SingleStep "u8 option"
  | ResumeRangeStep u32 u32

datatype breakpoint_call =
    AddSwBreakpoint u32
  | RemoveSwBreakpoint u32
  | AddHwWatchpoint u32 u32 WatchKind
  | RemoveHwWatchpoint u32 u32 WatchKind

datatype host_io_call =
    HostOpen "u8 list"
  | HostClose u32
  | Pread u32 u64 u64 "u8 list"
  | Fstat u32
  | Readlink "u8 list" "u8 list"
  | Setfs

text \<open>The extensions the target offers, and the interrupt of the event loop.\<close>

datatype target_call =
    BaseCall base_call
  | ResumeCall resume_call
  | BreakpointCall breakpoint_call
  | ExecFileCall u64 u64 "u8 list"
  | HostIoCall host_io_call
  | MonitorCall "u8 list"
  | InterruptCall

text \<open>The debugger after a call.\<close>

fun perform_base :: "base_call \<Rightarrow> Debugger \<Rightarrow> Debugger" where
  "perform_base ReadRegisters d = snd (read_registers d)"
| "perform_base (WriteRegisters regs) d = snd (write_registers regs d)"
| "perform_base (ReadRegister reg_id buf) d = snd (read_register reg_id buf d)"
| "perform_base (WriteRegister reg_id val) d = snd (write_register reg_id val d)"
| "perform_base (ReadAddrs addr data) d = snd (read_addrs addr data d)"
| "perform_base (WriteAddrs addr data) d = snd (write_addrs addr data d)"

fun perform_resume :: "resume_call \<Rightarrow> Debugger \<Rightarrow> Debugger" where
  "perform_resume (Resume sig) d = snd (resume sig d)"
| "perform_resume (SingleStep sig) d = snd (single_step sig d)"
| "perform_resume (ResumeRangeStep a b) d = snd (resume_range_step a b d)"

fun perform_breakpoint :: "breakpoint_call \<Rightarrow> Debugger \<Rightarrow> Debugger" where
  "perform_breakpoint (AddSwBreakpoint a) d = snd (add_sw_breakpoint a d)"
| "perform_breakpoint (RemoveSwBreakpoint a) d = snd (remove_sw_breakpoint a d)"
| "perform_breakpoint (AddHwWatchpoint a l k) d = snd (add_hw_watchpoint a l k d)"
| "perform_breakpoint (RemoveHwWatchpoint a l k) d = snd (remove_hw_watchpoint a l k d)"

fun perform_host_io :: "host_io_call \<Rightarrow> Debugger \<Rightarrow> Debugger" where
  "perform_host_io (HostOpen name) d = snd (host_open name d)"
| "perform_host_io (HostClose fd) d = snd (host_close fd d)"
| "perform_host_io (Pread fd count off buf) d = snd (pread fd count off buf d)"
| "perform_host_io (Fstat fd) d = snd (fstat fd d)"
| "perform_host_io (Readlink name buf) d = snd (readlink name buf d)"
| "perform_host_io Setfs d = snd (setfs d)"

fun perform :: "target_call \<Rightarrow> Debugger \<Rightarrow> Debugger" where
  "perform (BaseCall call) d = perform_base call d"
| "perform (ResumeCall call) d = perform_resume call d"
| "perform (BreakpointCall call) d = perform_breakpoint call d"
| "perform (ExecFileCall off len buf) d = snd (get_exec_file off len buf d)"
| "perform (HostIoCall call) d = perform_host_io call d"
| "perform (MonitorCall cmd) d = snd (handle_monitor_cmd cmd d)"
| "perform InterruptCall d = snd (on_interrupt d)"

text \<open>The register file of the target's architecture has 32 registers.\<close>

fun call_typed :: "target_call \<Rightarrow> bool" where
  "call_typed (BaseCall (WriteRegisters regs)) = (length (fst regs) = 32)"
| "call_typed call = True"

section \<open>Sessions\<close>

text \<open>
  One action of the stub: a call to the target, a wait for a stop, or something it does with the
  connection alone.
\<close>

inductive stub_step :: "externs \<Rightarrow> 'c conn \<Rightarrow> Debugger \<times> 'c \<Rightarrow> Debugger \<times> 'c \<Rightarrow> bool"
  for ext ops where
  stub_call: "call_typed call \<Longrightarrow> stub_step ext ops (d, c) (perform call d, c)"
| stub_wait: "stub_step ext ops (d, c) (snd (wait_for_stop_reason ext ops (d, c)))"
| stub_conn: "stub_step ext ops (d, c) (d, c')"

inductive session :: "externs \<Rightarrow> 'c conn \<Rightarrow> Debugger \<times> 'c \<Rightarrow> Debugger \<times> 'c \<Rightarrow> bool"
  for ext ops where
  session_start: "session ext ops t t"
| session_next: "session ext ops t t' \<Longrightarrow> stub_step ext ops t' t'' \<Longrightarrow> session ext ops t t''"

text \<open>
  What \<open>gdbstub\<close> documents of its event loop: it reaches the target only through the calls the
  target offers and the wait.
\<close>

definition stub_documented ::
    "externs \<Rightarrow> 'c conn \<Rightarrow> 'c \<Rightarrow> (Debugger, stub_error, DisconnectReason) M \<Rightarrow> bool" where
  "stub_documented ext ops c gdb_run \<longleftrightarrow>
     (\<forall>d r d'. gdb_run d = (r, d') \<longrightarrow> (\<exists>c'. session ext ops (d, c) (d', c')))"

lemma perform_keeps_wf: "dbg_wf d \<Longrightarrow> call_typed call \<Longrightarrow> dbg_wf (perform call d)"
proof (cases call)
  case (BaseCall x)
  assume "dbg_wf d" "call_typed call"
  with BaseCall show ?thesis
    using preserves_register_operations preserves_memory_operations by (cases x) (auto simp: preserves_def)
next
  case (ResumeCall x)
  assume "dbg_wf d"
  with ResumeCall show ?thesis
    using preserves_control_operations by (cases x) (auto simp: preserves_def)
next
  case (BreakpointCall x)
  assume "dbg_wf d"
  with BreakpointCall show ?thesis
    using preserves_control_operations by (cases x) (auto simp: preserves_def)
next
  case (ExecFileCall x y z)
  assume "dbg_wf d"
  with ExecFileCall show ?thesis using preserves_host_operations by (auto simp: preserves_def)
next
  case (HostIoCall x)
  assume "dbg_wf d"
  with HostIoCall show ?thesis using preserves_host_operations by (cases x) (auto simp: preserves_def)
next
  case (MonitorCall x)
  assume "dbg_wf d"
  with MonitorCall show ?thesis using preserves_monitor by (auto simp: preserves_def)
next
  case InterruptCall
  assume "dbg_wf d"
  with InterruptCall show ?thesis
    by (simp add: on_interrupt_def set_exec_mode_def bindM_modM ret_def)
qed

lemma session_keeps_wf:
  assumes "session ext ops t t'" and "externs_documented ext" and "dbg_wf (fst t)"
  shows "dbg_wf (fst t')"
  using assms
proof (induction rule: session.induct)
  case (session_next t t' t'')
  then have wf: "dbg_wf (fst t')" by blast
  from session_next.hyps(2) show ?case
  proof (cases rule: stub_step.cases)
    case (stub_wait d c)
    with wf session_next.prems(1) show ?thesis
      using preservesD [OF sim_machine.preserves_wait [of ext ops], of "(d, c)"]
      by (cases "wait_for_stop_reason ext ops (d, c)") (auto simp: dbg_wf_def)
  qed (use wf perform_keeps_wf in auto)
qed

lemma boot_wf:
  assumes "boot minimal_parse elf_data l = (Ok s, l')"
  shows "sim_wf s" and "watchpoints_fit (mem s)"
proof -
  obtain r m where m: "load_elf minimal_parse elf_data default_memory = (r, m)" by fastforce
  with assms obtain entry where r: "r = Ok entry" by (cases r) (auto simp: boot_def bindM_def panicM_def)
  with load_elf_loadable [where minimal_parse = minimal_parse, OF guest_inv_default] m obtain parsed where
    "minimal_parse elf_data = Some parsed" "elf_loadable elf_data parsed" by blast
  from boot_ok [where minimal_parse = minimal_parse, OF this, of l] assms
  show "sim_wf s" and "watchpoints_fit (mem s)" by (auto simp: guest_inv_def)
qed

text \<open>
  Property C2. From the moment the file is loaded to the moment the output is printed, whatever the
  client asks for and in whatever order, and however the session and the program end, the
  simulator's invariant holds: pages of 256 words, a counter within its segment whose pages are
  paid for, 32 registers, cursors within their buffers.
\<close>

theorem session_keeps_invariant:
  assumes "externs_documented ext" and "stub_documented ext ops c gdb_run"
    and "boot minimal_parse elf_data l = (Ok s, l')"
    and "debugger_takeover ext net gdb_run elf_data s = (r, s')"
  shows "sim_wf s'"
proof -
  have wf: "sim_wf s" by (rule boot_wf(1) [OF assms(3)])
  let ?d = "\<lparr>elf = elf_data, simulator = s, exec_mode = Continue, breakpoints = {}\<rparr>"
  obtain q d where g: "gdb_run ?d = (q, d)" by fastforce
  obtain c' where "session ext ops (?d, c) (d, c')"
    using assms(2) [unfolded stub_documented_def, rule_format, OF g] by blast
  from session_keeps_wf [OF this assms(1)] wf have d: "sim_wf (simulator d)" by (simp add: dbg_wf_def)
  have "sim_wf t" if "run_to_completion ext (simulator d) = Some (e, t)" for e t
    using sim_machine.run_to_completion_inv [OF that] assms(1) d by blast
  with assms(4) g d wf show ?thesis
    by (auto simp: debugger_takeover_def wait_for_tcp_outcome split: if_splits outcome.splits DisconnectReason.splits option.splits sum.splits)
qed

end
