(* ===== verification/Program_View.thy ===== *)
theory Program_View
  imports Ecall
begin

text \<open>
  What the program can see of the simulator: not which pages exist already, and not which
  watchpoints are set. Two simulators that only differ there take the same steps, up to the
  reports of watchpoints.
\<close>

section \<open>Memories that look the same\<close>

definition view_eq :: "Memory \<Rightarrow> Memory \<Rightarrow> bool" where
  "view_eq m m' \<longleftrightarrow> mem_wf m \<and> mem_wf m' \<and> watchpoints_fit m \<and> watchpoints_fit m' \<and>
     (\<forall>p i. i < 256 \<longrightarrow> word_at m p i = word_at m' p i) \<and>
     session_cycle_callback m = session_cycle_callback m'"

lemma view_eq_refl: "mem_wf m \<Longrightarrow> watchpoints_fit m \<Longrightarrow> view_eq m m"
  by (simp add: view_eq_def)

lemma view_eq_sym: "view_eq m m' \<Longrightarrow> view_eq m' m"
  by (simp add: view_eq_def)

lemma view_eq_trans: "view_eq m1 m2 \<Longrightarrow> view_eq m2 m3 \<Longrightarrow> view_eq m1 m3"
  by (simp add: view_eq_def)

lemma view_eq_bytes: "view_eq m m' \<Longrightarrow> byte_at m = byte_at m'"
  by (simp add: view_eq_def byte_at_def fun_eq_iff)

lemma view_eq_trigger:
  "view_eq m m' \<Longrightarrow> view_eq (m\<lparr>watch_trigger := t\<rparr>) (m'\<lparr>watch_trigger := t'\<rparr>)"
  by (simp add: view_eq_def)

lemma callback_touch:
  "session_cycle_callback m = session_cycle_callback m' \<Longrightarrow>
   session_cycle_callback (touch f pr a m) = session_cycle_callback (touch f pr a m')"
  by (simp add: touch_def run_callback_def split: option.split)

lemma view_eq_touch:
  assumes "view_eq m m'" and "f = callback_read_mem \<or> f = callback_write_mem"
  shows "view_eq (touch f pr a m) (touch f pr a m')"
  using assms mem_wf_touch callback_touch [of m m'] by (simp add: view_eq_def)

lemma view_eq_put_word:
  assumes "view_eq m m'" and "page_map m p \<noteq> None" and "page_map m' p \<noteq> None" and "i < 256"
  shows "view_eq (put_word p i w m) (put_word p i w m')"
  using assms by (simp add: view_eq_def mem_wf_put_word word_at_put_word)

text \<open>An access gives the same answer on both and leaves them looking the same.\<close>

lemma oblivious_read_priv: "oblivious id view_eq (read_mem_with_privileges a sz pr)"
proof (cases "out_of_range a")
  case False
  have eq: "read_mem_with_privileges a sz pr m = (Ok (Some (extract_word sz (page_offset_of a)
      (word_at m (drop_bit 10 a) (page_offset_of a div 4)))),
      (touch callback_read_mem pr a m)\<lparr>watch_trigger := access_trigger pr m a sz False\<rparr>)"
    if "mem_wf m" "watchpoints_fit m" for m
    using read_mem_spec [of m pr a sz] that False by simp
  show ?thesis
  proof
    fix m m' assume v: "view_eq m m'"
    then show "map_outcome id id (fst (read_mem_with_privileges a sz pr m)) =
        map_outcome id id (fst (read_mem_with_privileges a sz pr m'))"
      by (simp add: view_eq_def eq)
    from v show "view_eq (snd (read_mem_with_privileges a sz pr m)) (snd (read_mem_with_privileges a sz pr m'))"
      using view_eq_trigger [OF view_eq_touch [OF v, of callback_read_mem pr a]]
      by (simp add: eq view_eq_def [of m m'])
  qed
qed (simp add: oblivious_def read_mem_unfold)

lemma oblivious_write_priv: "oblivious id view_eq (write_mem_with_privileges a sz v pr)"
proof (cases "out_of_range a")
  case False
  let ?p = "drop_bit 10 a" and ?i = "page_offset_of a div 4"
  let ?put = "\<lambda>m t. put_word ?p ?i (merge_word sz (page_offset_of a) (word_at m ?p ?i) v)
      ((touch callback_write_mem pr a m)\<lparr>watch_trigger := t\<rparr>)"
  have eq: "write_mem_with_privileges a sz v pr m = (Ok True, ?put m (access_trigger pr m a sz True))"
    if "mem_wf m" "watchpoints_fit m" for m
    using write_mem_spec [of m pr a sz v] that False by simp
  show ?thesis
  proof
    fix m m' assume v: "view_eq m m'"
    then show "map_outcome id id (fst (write_mem_with_privileges a sz v pr m)) =
        map_outcome id id (fst (write_mem_with_privileges a sz v pr m'))"
      by (simp add: view_eq_def eq)
    have "view_eq (?put m t) (?put m' t')" for t t'
      using view_eq_put_word [OF view_eq_trigger [OF view_eq_touch [OF v, of callback_write_mem pr a], of t t'], of ?p ?i] v
      by (simp add: view_eq_def [of m m'])
    with v show "view_eq (snd (write_mem_with_privileges a sz v pr m)) (snd (write_mem_with_privileges a sz v pr m'))"
      by (simp add: eq view_eq_def [of m m'])
  qed
qed (simp add: oblivious_def write_mem_unfold)

lemma oblivious_access [simp, intro]:
  "oblivious id view_eq (read_mem a sz)" "oblivious id view_eq (write_mem a sz v)"
  by (simp_all add: read_mem_def write_mem_def oblivious_read_priv oblivious_write_priv)

section \<open>The memory loops\<close>

lemma oblivious_read_loop [simp, intro]: "oblivious id view_eq (read_loop (\<lambda>a. read_mem a Byte) e ptr i n)"
  by (induction n arbitrary: i) (auto intro!: oblivious_bindM)

lemma oblivious_write_loop [simp, intro]: "oblivious id view_eq (write_loop (\<lambda>a v. write_mem a Byte v) e ptr i bs)"
  by (induction bs arbitrary: i) (auto intro!: oblivious_bindM)

lemma oblivious_read_words [simp, intro]: "oblivious id view_eq (read_words e ptr i n)"
  by (induction n arbitrary: i) (auto intro!: oblivious_bindM)

lemma oblivious_sha_blocks [simp, intro]: "oblivious id view_eq (sha_blocks ext n p1 p2 st)"
  by (induction n arbitrary: p1 p2 st) (auto simp: Let_def intro!: oblivious_bindM)

lemma oblivious_store_words [simp, intro]: "oblivious id view_eq (store_words p i ws)"
  by (induction ws arbitrary: i) (auto intro!: oblivious_bindM)

lemma oblivious_load_bigint [simp, intro]: "oblivious id view_eq (load_bigint_le_bytes p)"
  by (auto simp: load_bigint_le_bytes_def intro!: oblivious_bindM)

lemma oblivious_read_name [simp, intro]: "oblivious id view_eq (read_name addr bs)"
proof -
  have "fst (read_name addr bs m) = fst (read_name addr bs m') \<and>
      view_eq (snd (read_name addr bs m)) (snd (read_name addr bs m'))" if "view_eq m m'" for m m'
    using that
  proof (induction addr bs m arbitrary: m' rule: read_name.induct)
    case (1 addr bs m)
    obtain r m1 where m1: "read_mem addr Byte m = (r, m1)" by fastforce
    with obliviousD [OF oblivious_access(1) "1.prems", of addr Byte]
    obtain m2 where m2: "read_mem addr Byte m' = (r, m2)" "view_eq m1 m2"
      by (cases "read_mem addr Byte m'") auto
    show ?case
      by (subst (1 2 3 4) read_name.simps)
        (use "1.IH" [OF m1 [symmetric]] m1 m2 in \<open>auto split: outcome.split option.split\<close>)
  qed
  then show ?thesis by (simp add: oblivious_def)
qed

section \<open>Simulators that look the same\<close>

definition same_program :: "Simulator \<Rightarrow> Simulator \<Rightarrow> bool" where
  "same_program s t \<longleftrightarrow> view_eq (mem s) (mem t) \<and> hart_state s = hart_state t \<and> env s = env t \<and>
     stdin s = stdin t \<and> stdout s = stdout t \<and> stderr s = stderr t \<and> journal s = journal t \<and>
     args s = args t \<and> random_calls s = random_calls t"

lemma same_program_sym: "same_program s t \<Longrightarrow> same_program t s"
  by (simp add: same_program_def view_eq_sym)

lemma same_program_trans: "same_program s t \<Longrightarrow> same_program t u \<Longrightarrow> same_program s u"
  by (auto simp: same_program_def intro: view_eq_trans)

lemma same_program_reads:
  assumes "same_program s t"
  shows "reg i s = reg i t" and "get_channel ch s = get_channel ch t"
    and "session_cycle_callback (mem s) = session_cycle_callback (mem t)"
    and "hart_state s = hart_state t" and "env s = env t" and "stdin s = stdin t"
    and "args s = args t" and "random_calls s = random_calls t"
  using assms by (cases ch; simp add: same_program_def view_eq_def reg_def)+

lemma same_program_writes:
  assumes "same_program s t"
  shows "same_program (set_reg i v s) (set_reg i v t)" and "same_program (set_pc p s) (set_pc p t)"
    and "same_program (s\<lparr>stdin := c\<rparr>) (t\<lparr>stdin := c\<rparr>)"
    and "same_program (s\<lparr>random_calls := k\<rparr>) (t\<lparr>random_calls := k\<rparr>)"
    and "same_program (set_channel ch c s) (set_channel ch c t)"
    and "same_program (clear_trigger s) (clear_trigger t)"
  using assms
  by (cases ch; simp add: same_program_def set_reg_def set_pc_def clear_trigger_def view_eq_trigger)+

lemma oblivious_lift_mem:
  assumes "oblivious id view_eq f"
  shows "oblivious id same_program (lift_mem f)"
proof
  fix s t assume st: "same_program s t"
  then have "view_eq (mem s) (mem t)" by (simp add: same_program_def)
  note f = obliviousD [OF assms this]
  from f(1) show "map_outcome id id (fst (lift_mem f s)) = map_outcome id id (fst (lift_mem f t))"
    by (simp add: lift_mem_def case_prod_beta)
  from f(2) st show "same_program (snd (lift_mem f s)) (snd (lift_mem f t))"
    by (simp add: lift_mem_def case_prod_beta same_program_def)
qed

lemma oblivious_lift_cycle:
  assumes "preserves scc_wf f"
  shows "oblivious id same_program (lift_cycle f)"
proof
  fix s t assume st: "same_program s t"
  note c = same_program_reads(3) [OF st]
  show "map_outcome id id (fst (lift_cycle f s)) = map_outcome id id (fst (lift_cycle f t))"
    by (simp add: lift_cycle_def c case_prod_beta split: option.split)
  show "same_program (snd (lift_cycle f s)) (snd (lift_cycle f t))"
  proof (cases "session_cycle_callback (mem t)")
    case (Some k)
    with st have "scc_wf k" by (simp add: same_program_def view_eq_def mem_wf_def)
    with assms have "scc_wf (snd (f k))" by (simp add: preserves_def)
    with st Some c show ?thesis
      by (simp add: lift_cycle_def case_prod_beta same_program_def view_eq_def mem_wf_def watchpoints_fit_def word_at_def)
  qed (use st c in \<open>simp add: lift_cycle_def\<close>)
qed

section \<open>The system calls and the ecalls\<close>

lemma oblivious_state [simp, intro]:
  "oblivious id same_program (getM (reg i))" "oblivious id same_program (getM (\<lambda>s. unat (reg i s)))"
  "oblivious id same_program (getM (\<lambda>s. pc (hart_state s)))" "oblivious id same_program (getM stdin)"
  "oblivious id same_program (getM args)" "oblivious id same_program (getM (\<lambda>s. length (args s)))"
  "oblivious id same_program (getM random_calls)" "oblivious id same_program (getM (\<lambda>s. env s name))"
  by (simp_all add: oblivious_def getM_def same_program_def reg_def)

lemma oblivious_updates [simp, intro]:
  "oblivious id same_program (modM (\<lambda>s. s\<lparr>stdin := c\<rparr>))"
  "oblivious id same_program (modM (\<lambda>s. s\<lparr>random_calls := k\<rparr>))"
  "oblivious id same_program (modM (set_pc p))" "oblivious id same_program (modM clear_trigger)"
  "oblivious id same_program (ret_regs a b)"
  by (simp_all add: oblivious_def modM_def ret_regs_def same_program_writes)

lemma oblivious_parts [simp, intro]:
  "oblivious id same_program (extend_channel ch bs)" "oblivious id same_program (read_guest e ptr len)"
  "oblivious id same_program (from_utf8 bs)" "oblivious id same_program (get_write_fd fd)"
proof -
  show "oblivious id same_program (extend_channel ch bs)"
    unfolding extend_channel_def
  proof (rule oblivious_modM)
    fix s t assume st: "same_program s t"
    show "same_program (set_channel ch ((get_channel ch s)\<lparr>get_ref := get_ref (get_channel ch s) @ bs\<rparr>) s)
        (set_channel ch ((get_channel ch t)\<lparr>get_ref := get_ref (get_channel ch t) @ bs\<rparr>) t)"
      unfolding same_program_reads(2) [OF st] by (rule same_program_writes(5) [OF st])
  qed
qed (simp_all add: read_guest_def from_utf8_def get_write_fd_def oblivious_lift_mem)

lemma oblivious_lift_cycle_getM [simp, intro]: "oblivious id same_program (lift_cycle (getM f))"
  by (rule oblivious_lift_cycle) simp

lemma oblivious_sys_random [simp, intro]: "oblivious id same_program (sys_random ext to_guest)"
  unfolding sys_random_def Let_def by (auto intro!: oblivious_bindM split: option.split prod.split)

lemma oblivious_sys_cycle_count [simp, intro]: "oblivious id same_program (sys_cycle_count to_guest)"
  unfolding sys_cycle_count_def Let_def by (auto intro!: oblivious_bindM split: option.split prod.split)

lemma oblivious_sys_panic [simp, intro]: "oblivious id same_program (sys_panic to_guest)"
  unfolding sys_panic_def Let_def by (auto intro!: oblivious_bindM split: option.split prod.split)

lemma oblivious_sys_getenv [simp, intro]: "oblivious id same_program (sys_getenv to_guest)"
  unfolding sys_getenv_def Let_def by (auto intro!: oblivious_bindM split: option.split prod.split)

lemma oblivious_sys_read [simp, intro]: "oblivious id same_program (sys_read to_guest)"
  unfolding sys_read_def Let_def by (auto intro!: oblivious_bindM split: option.split prod.split)

lemma oblivious_sys_read_avail [simp, intro]: "oblivious id same_program (sys_read_avail to_guest)"
  unfolding sys_read_avail_def Let_def by (auto intro!: oblivious_bindM split: option.split prod.split)

lemma oblivious_sys_write [simp, intro]: "oblivious id same_program (sys_write to_guest)"
  unfolding sys_write_def Let_def by (auto intro!: oblivious_bindM split: option.split prod.split)

lemma oblivious_sys_log [simp, intro]: "oblivious id same_program (sys_log to_guest)"
  unfolding sys_log_def Let_def by (auto intro!: oblivious_bindM split: option.split prod.split)

lemma oblivious_sys_verify [simp, intro]: "oblivious id same_program (sys_verify to_guest)"
  unfolding sys_verify_def Let_def by (auto intro!: oblivious_bindM split: option.split prod.split)

lemma oblivious_sys_argc [simp, intro]: "oblivious id same_program (sys_argc to_guest)"
  unfolding sys_argc_def Let_def by (auto intro!: oblivious_bindM split: option.split prod.split)

lemma oblivious_sys_args [simp, intro]: "oblivious id same_program (sys_args to_guest)"
  unfolding sys_args_def Let_def by (auto intro!: oblivious_bindM split: option.split prod.split)

lemma oblivious_handle_syscall [simp, intro]: "oblivious id same_program (handle_syscall ext name to_guest)"
  unfolding handle_syscall_def by (intro oblivious_bindM oblivious_if) simp_all

lemma oblivious_next_pc [simp, intro]: "oblivious id same_program (next_pc exit extra)"
  unfolding next_pc_def by (auto intro!: oblivious_bindM)

lemma oblivious_ecalls [simp, intro]:
  "oblivious id same_program ecall_halt" "oblivious id same_program ecall_input"
  "oblivious id same_program (ecall_software ext)" "oblivious id same_program (ecall_sha ext)"
  "oblivious id same_program (ecall_bigint ext)"
  unfolding ecall_halt_def ecall_input_def ecall_software_def ecall_sha_def ecall_bigint_def Let_def
  by (auto intro!: oblivious_bindM oblivious_lift_mem split: option.split prod.split)

lemma oblivious_ecall [simp, intro]: "oblivious id same_program (ecall ext)"
  unfolding ecall_def by (auto intro!: oblivious_bindM)

section \<open>Steps\<close>

text \<open>
  The executor of \<open>rrs_lib\<close> is generic in its memory: all it can do with it is to read and write
  through the \<open>Memory\<close> trait. So it cannot tell two memories apart that no sequence of accesses
  tells apart, whatever the relation between them is.
\<close>

definition exec_generic :: "(HartState \<times> Memory, string, unit) M \<Rightarrow> bool" where
  "exec_generic ex \<longleftrightarrow>
     (\<forall>R. (\<forall>a sz. oblivious id R (read_mem a sz)) \<and> (\<forall>a sz v. oblivious id R (write_mem a sz v)) \<longrightarrow>
        oblivious id (rel_prod (=) R) ex)"

lemma oblivious_run_exec:
  assumes "exec_generic (exec_step ext)"
  shows "oblivious id same_program (run_exec ext)"
proof -
  have ob: "oblivious id (rel_prod (=) view_eq) (exec_step ext)"
    using assms [unfolded exec_generic_def, rule_format, of view_eq] by simp
  have "fst (run_exec ext s) = fst (run_exec ext t) \<and> same_program (snd (run_exec ext s)) (snd (run_exec ext t))"
    if "same_program s t" for s t
  proof -
    from that have "rel_prod (=) view_eq (hart_state s, mem s) (hart_state t, mem t)"
      by (simp add: same_program_def)
    from obliviousD [OF ob this] obtain r h m m' where
      "exec_step ext (hart_state s, mem s) = (r, (h, m))" "exec_step ext (hart_state t, mem t) = (r, (h, m'))"
      "view_eq m m'" by (auto simp: rel_prod_sel prod_eq_iff)
    with that show ?thesis
      by (cases r) (auto simp: run_exec_def Let_def same_program_def)
  qed
  then show ?thesis by (simp add: oblivious_def)
qed

text \<open>What a step reports, but for the watchpoints.\<close>

fun unwatched :: "ExitCode option \<Rightarrow> ExitCode option" where
  "unwatched (Some (HwWatchPoint kind addr)) = None"
| "unwatched x = x"

lemma oblivious_step:
  assumes "externs_documented ext" and "exec_generic (exec_step ext)"
  shows "oblivious unwatched same_program (step ext)"
proof -
  have "preserves scc_wf (callback_step (hashset_iter ext) oc ex)" for oc ex
    using assms(1) scc_wf_callback_step by (auto simp: preserves_def externs_documented_def)
  then have count: "oblivious id same_program (count_step ext oc ex)" for oc ex
    by (simp add: count_step_def oblivious_lift_cycle)
  have exit: "oblivious unwatched same_program (bindM (getM (\<lambda>s. watch_trigger (mem s))) (\<lambda>t.
      case exit of
        None \<Rightarrow> (case t of None \<Rightarrow> ret exit | Some (kind, addr) \<Rightarrow> ret (Some (HwWatchPoint kind addr)))
      | Some x \<Rightarrow> ret exit))" for exit
    by (auto simp: oblivious_def bindM_getM ret_def split: option.split)
  have go_on: "oblivious unwatched same_program (bindM (getM (\<lambda>s. watch_trigger (mem s)))
      (case_option (ret None) (\<lambda>(kind, addr). ret (Some (HwWatchPoint kind addr)))))"
    by (auto simp: oblivious_def bindM_getM ret_def split: option.split)
  show ?thesis
    unfolding step_def using count oblivious_run_exec [OF assms(2)]
    by (auto intro!: exit go_on oblivious_bindM oblivious_lift_mem split: sum.split)
qed

text \<open>Steps from simulators that look the same, case by case.\<close>

lemma map_outcome_eq:
  "Ok y = map_outcome id h r \<longleftrightarrow> (\<exists>x. r = Ok x \<and> y = h x)"
  "Err e = map_outcome id h r \<longleftrightarrow> r = Err e"
  "Panic p = map_outcome id h r \<longleftrightarrow> r = Panic p"
  "Hang = map_outcome id h r \<longleftrightarrow> r = Hang"
  by (cases r; auto)+

lemma unwatched_None: "unwatched x = None \<longleftrightarrow> x = None \<or> (\<exists>k a. x = Some (HwWatchPoint k a))"
  by (cases x rule: unwatched.cases) auto

lemma unwatched_exit:
  "Some (Paused code) = unwatched x \<longleftrightarrow> x = Some (Paused code)"
  "Some (Halted code) = unwatched x \<longleftrightarrow> x = Some (Halted code)"
  by (cases x rule: unwatched.cases; auto)+

end
