(* ===== verification/Halting.thy ===== *)
theory Halting
  imports Ecall
begin

text \<open>
  The end of the program is final: the call that halts or pauses is left in place, so that every
  further step executes it again.
\<close>

section \<open>At a halting call\<close>

text \<open>
  The program counter is at an ecall, the registers ask for the exit \<open>x\<close>, and nothing is marked
  in the cycle counter.
\<close>

definition exits_with :: "ExitCode \<Rightarrow> Simulator \<Rightarrow> bool" where
  "exits_with x s \<longleftrightarrow> reg REG_T0 s = ECALL_HALT \<and>
     (x = Halted (drop_bit 8 (reg REG_A0 s) AND 0xff) \<and> reg REG_A0 s AND 0xff = HALT_TERMINATE \<or>
      x = Paused (drop_bit 8 (reg REG_A0 s) AND 0xff) \<and> reg REG_A0 s AND 0xff = HALT_PAUSE)"

definition at_exit :: "ExitCode \<Rightarrow> Simulator \<Rightarrow> bool" where
  "at_exit x s \<longleftrightarrow> sim_wf s \<and> watchpoints_fit (mem s) \<and> exits_with x s \<and>
     (\<exists>insn. is_ecall insn \<and> fst (read_mem (pc (hart_state s)) Word (mem s)) = Ok (Some insn)) \<and>
     (\<exists>c. session_cycle_callback (mem s) = Some c \<and> cur_step_read c = {} \<and> cur_step_write c = {})"

lemma exits_with_ecall: "exits_with x s \<Longrightarrow> ecall ext s = (Ok (pc (hart_state s), Some x, 0), s)"
  by (auto simp: exits_with_def ecall_unfold ecall_halt_unfold cfg_simps)

text \<open>What a fetch yields depends on the word only; it marks the page it is on.\<close>

definition word_for :: "Memory \<Rightarrow> u32 \<Rightarrow> u32" where
  "word_for m a = extract_word Word (page_offset_of a) (word_at m (drop_bit 10 a) (page_offset_of a div 4))"

lemma fetch_spec:
  assumes "sim_wf s" and "watchpoints_fit (mem s)" and "\<not> out_of_range a"
  shows "\<exists>c m. session_cycle_callback (mem s) = Some c \<and> scc_wf c \<and>
     read_mem a Word (mem s) = (Ok (Some (word_for (mem s) a)), m) \<and>
     sim_wf (s\<lparr>mem := m\<rparr>) \<and> watchpoints_fit m \<and> word_for m a = word_for (mem s) a \<and>
     byte_at m = byte_at (mem s) \<and>
     session_cycle_callback m = Some (callback_read_mem (drop_bit 10 a) c)"
proof -
  obtain c where c: "session_cycle_callback (mem s) = Some c" "scc_wf c"
    using assms(1) by (auto simp: sim_wf_def mem_wf_def)
  let ?m = "(touch callback_read_mem False a (mem s))\<lparr>watch_trigger := access_trigger False (mem s) a Word False\<rparr>"
  have r: "read_mem a Word (mem s) = (Ok (Some (word_for (mem s) a)), ?m)"
    using read_mem_spec [of "mem s" False a Word] assms by (simp add: read_mem_def word_for_def sim_wf_def)
  then have "sim_wf (s\<lparr>mem := ?m\<rparr>)"
    using sim_wf_frame [OF assms(1)] read_mem_frame [of "mem s" a Word False] by (simp add: read_mem_def)
  moreover have "watchpoints_fit ?m" using assms(2) by (simp add: watchpoints_fit_def)
  moreover have "word_for ?m a = word_for (mem s) a" by (simp add: word_for_def)
  moreover have "byte_at ?m = byte_at (mem s)" by simp
  moreover have "session_cycle_callback ?m = Some (callback_read_mem (drop_bit 10 a) c)"
    using c(1) by (simp add: touch_def run_callback_def)
  ultimately show ?thesis using c r by blast
qed

lemma count_fetch:
  assumes "externs_documented ext" and "sim_wf s" and "\<not> out_of_range a"
    and "session_cycle_callback (mem s) = Some (callback_read_mem (drop_bit 10 a) c)"
    and "cur_step_read c = {}" and "cur_step_write c = {}"
  obtains c' where "count_step ext 1 0 s = (Ok (), s\<lparr>mem := (mem s)\<lparr>session_cycle_callback := Some c'\<rparr>\<rparr>)"
    "scc_wf c'" "cur_step_read c' = {}" "cur_step_write c' = {}"
proof -
  have wf: "scc_wf (callback_read_mem (drop_bit 10 a) c)" using assms(2,4) by (simp add: sim_wf_def mem_wf_def)
  have "unat (drop_bit 10 a) \<le> 196608" using assms(3) div_le_mono [of "unat a" 201326592 1024]
    by (simp add: out_of_range_def cfg_simps drop_bit_eq_div unat_div)
  then obtain c' where "callback_step (hashset_iter ext) 1 0 (callback_read_mem (drop_bit 10 a) c) = (Ok (), c')"
    "scc_wf c'" "cur_step_read c' = {}" "cur_step_write c' = {}"
    using charge_returns [OF _ wf, of "hashset_iter ext" 1 0] assms
    by (auto simp: callback_read_mem_def externs_documented_def)
  with assms(4) show ?thesis by (intro that) (simp_all add: count_step_def lift_cycle_def)
qed

lemma callback_step_clears:
  assumes "enumerates it" and "scc_wf c" and "callback_step it oc ex c = (Ok u, c')"
  shows "cur_step_read c' = {} \<and> cur_step_write c' = {}"
proof -
  have ok: "touched_ok c" using assms(2) by (simp add: scc_wf_def)
  show ?thesis by (rule callback_step_cases [OF assms(1) ok assms(3)]) (simp_all add: commit_step_def)
qed

lemma step_at_exit:
  assumes "externs_documented ext" and "at_exit x s"
  shows "\<exists>m. step ext s = (Ok (Some x), s\<lparr>mem := m\<rparr>) \<and> at_exit x (s\<lparr>mem := m\<rparr>) \<and>
     byte_at m = byte_at (mem s)"
proof -
  let ?a = "pc (hart_state s)"
  from assms(2) have wf: "sim_wf s" "watchpoints_fit (mem s)" and ex: "exits_with x s"
    by (auto simp: at_exit_def)
  from assms(2) obtain insn where insn: "is_ecall insn" "fst (read_mem ?a Word (mem s)) = Ok (Some insn)"
    by (auto simp: at_exit_def)
  then have rng: "\<not> out_of_range ?a" by (auto simp: read_mem_def read_mem_unfold)
  with wf obtain c m where c: "session_cycle_callback (mem s) = Some c"
    and m: "read_mem ?a Word (mem s) = (Ok (Some (word_for (mem s) ?a)), m)"
      "sim_wf (s\<lparr>mem := m\<rparr>)" "watchpoints_fit m" "word_for m ?a = word_for (mem s) ?a"
      "byte_at m = byte_at (mem s)"
      "session_cycle_callback m = Some (callback_read_mem (drop_bit 10 ?a) c)"
    using fetch_spec by blast
  with insn have e: "is_ecall (word_for (mem s) ?a)" by simp
  let ?t = "clear_trigger (s\<lparr>mem := m\<rparr>)"
  have x: "exits_with x ?t" using ex by (simp add: exits_with_def reg_def)
  have wft: "sim_wf ?t" using m(2) by (simp add: sim_wf_def clear_trigger_def mem_wf_def)
  have none: "cur_step_read c = {}" "cur_step_write c = {}" using assms(2) c by (auto simp: at_exit_def)
  have "set_pc ?a ?t = ?t" by (simp add: set_pc_def clear_trigger_def)
  moreover obtain c' where c': "count_step ext 1 0 ?t = (Ok (), ?t\<lparr>mem := (mem ?t)\<lparr>session_cycle_callback := Some c'\<rparr>\<rparr>)"
    "scc_wf c'" "cur_step_read c' = {}" "cur_step_write c' = {}"
    using count_fetch [OF assms(1) wft rng _ none] m(6) by (auto simp: clear_trigger_def)
  ultimately have st: "step ext s = (Ok (Some x), ?t\<lparr>mem := (mem ?t)\<lparr>session_cycle_callback := Some c'\<rparr>\<rparr>)"
    by (simp add: step_ecall [OF m(1) e] bindM_def [of "ecall ext"] bindM_def [of "count_step ext a b" for a b]
        exits_with_ecall [OF x] bindM_run ret_def)
  let ?s = "?t\<lparr>mem := (mem ?t)\<lparr>session_cycle_callback := Some c'\<rparr>\<rparr>"
  have wf': "sim_wf ?s" "watchpoints_fit (mem ?s)"
    using wft m(3) c'(2) by (auto simp: sim_wf_def mem_wf_def watchpoints_fit_def clear_trigger_def)
  have "word_for (mem ?s) ?a = word_for m ?a" by (simp add: word_for_def word_at_def clear_trigger_def)
  then have "fst (read_mem ?a Word (mem ?s)) = Ok (Some (word_for (mem s) ?a))"
    using fetch_spec [OF wf' rng] m(4) by auto
  then have "at_exit x ?s"
    using wf' e x c'(3,4) by (auto simp: at_exit_def exits_with_def reg_def)
  moreover have "?s = s\<lparr>mem := mem ?s\<rparr>" by (simp add: clear_trigger_def)
  moreover have "byte_at (mem ?s) = byte_at (mem s)"
    using m(5) by (simp add: byte_at_def word_at_def clear_trigger_def fun_eq_iff)
  ultimately show ?thesis using st by metis
qed

text \<open>A step that stops the program ends at such a call.\<close>

lemma step_exit_at_exit:
  assumes "externs_documented ext" and "sim_wf s" and "watchpoints_fit (mem s)"
    and "step ext s = (Ok (Some x), s')" and "\<forall>k a. x \<noteq> HwWatchPoint k a"
  shows "at_exit x s'"
proof -
  let ?a = "pc (hart_state s)"
  obtain insn m p n s2 where
    r: "read_mem ?a Word (mem s) = (Ok (Some insn), m)" and e: "is_ecall insn"
    and ec: "ecall ext (clear_trigger (s\<lparr>mem := m\<rparr>)) = (Ok (p, Some x, n), s2)"
    and cnt: "count_step ext 1 n (set_pc p s2) = (Ok (), s')" by (rule step_exit_parts [OF assms(4,5)])
  from r have rng: "\<not> out_of_range ?a" by (auto simp: read_mem_def read_mem_unfold)
  from fetch_spec [OF assms(2,3) rng] r have m: "insn = word_for (mem s) ?a" "watchpoints_fit m"
    "word_for m ?a = word_for (mem s) ?a" "sim_wf (s\<lparr>mem := m\<rparr>)" by auto
  let ?t = "clear_trigger (s\<lparr>mem := m\<rparr>)"
  have s2: "set_pc p s2 = ?t" "n = 0" using ecall_exit [OF ec] by (simp_all add: set_pc_def clear_trigger_def)
  from cnt s2 obtain c' where c': "s' = ?t\<lparr>mem := (mem ?t)\<lparr>session_cycle_callback := Some c'\<rparr>\<rparr>"
    and "\<exists>c. session_cycle_callback m = Some c \<and> callback_step (hashset_iter ext) 1 0 c = (Ok (), c')"
    by (auto simp: count_step_def lift_cycle_def clear_trigger_def split: prod.splits option.splits)
  then have none: "cur_step_read c' = {}" "cur_step_write c' = {}"
    using callback_step_clears m(4) assms(1) unfolding externs_documented_def sim_wf_def mem_wf_def by fastforce+
  have wf': "sim_wf s'" using preservesD [OF preserves_step] assms(1,2,4) by metis
  have fit': "watchpoints_fit (mem s')" using m(2) c' by (simp add: watchpoints_fit_def clear_trigger_def)
  have h: "hart_state s' = hart_state s" using c' by simp
  have "word_for (mem s') ?a = word_for m ?a" using c' by (simp add: word_for_def word_at_def clear_trigger_def)
  then have "fst (read_mem ?a Word (mem s')) = Ok (Some insn)"
    using fetch_spec [OF wf' fit' rng] m by auto
  moreover have "exits_with x s'" using step_exit [OF assms(4,5)] h by (simp add: exits_with_def reg_def)
  ultimately show ?thesis using wf' fit' e h c' none by (auto simp: at_exit_def)
qed

lemma exit_stays:
  assumes "externs_documented ext" and "at_exit x s"
  shows "\<exists>m. ((\<lambda>s. snd (step ext s)) ^^ n) s = s\<lparr>mem := m\<rparr> \<and> at_exit x (s\<lparr>mem := m\<rparr>) \<and> byte_at m = byte_at (mem s)"
proof (induction n)
  case 0
  show ?case using assms(2) by (intro exI [of _ "mem s"]) simp
next
  case (Suc n)
  then obtain m where m: "((\<lambda>s. snd (step ext s)) ^^ n) s = s\<lparr>mem := m\<rparr>"
    "at_exit x (s\<lparr>mem := m\<rparr>)" "byte_at m = byte_at (mem s)" by blast
  from step_at_exit [OF assms(1) m(2)] obtain m' where
    "step ext (s\<lparr>mem := m\<rparr>) = (Ok (Some x), s\<lparr>mem := m'\<rparr>)" "at_exit x (s\<lparr>mem := m'\<rparr>)"
    "byte_at m' = byte_at m" by auto
  with m show ?case by auto
qed

text \<open>
  Property C40. The end is final: after a step that halts or pauses the program, every later
  step executes the same call again and stops in the same way, with the registers, the channels
  and every byte of memory as they were (only the cycle counter and the trigger move on).
\<close>

theorem exit_is_final:
  assumes "externs_documented ext" and "sim_wf s" and "watchpoints_fit (mem s)"
    and "step ext s = (Ok (Some x), s')" and "\<forall>k a. x \<noteq> HwWatchPoint k a"
  shows "\<exists>m. ((\<lambda>s. snd (step ext s)) ^^ n) s' = s'\<lparr>mem := m\<rparr> \<and> byte_at m = byte_at (mem s') \<and>
     fst (step ext (s'\<lparr>mem := m\<rparr>)) = Ok (Some x)"
proof -
  from exit_stays [OF assms(1) step_exit_at_exit [OF assms]] obtain m where
    m: "((\<lambda>s. snd (step ext s)) ^^ n) s' = s'\<lparr>mem := m\<rparr>" "at_exit x (s'\<lparr>mem := m\<rparr>)" "byte_at m = byte_at (mem s')" by blast
  then show ?thesis using step_at_exit [OF assms(1) m(2)] by (intro exI [of _ m]) auto
qed

end
