(* ===== verification/Transparency.thy ===== *)
theory Transparency
  imports Session Program_View Halting
begin

text \<open>
  Debugging does not change the program. A client that only looks (registers, memory, the file,
  the cycle counter), that sets breakpoints and watchpoints and runs the program in any of the four
  modes, leaves a program that goes on exactly as one that was never debugged.
\<close>

section \<open>Runs from states that look the same\<close>

text \<open>
  The program's own run: the state after \<open>n\<close> of its steps, whatever they report. The run is sound
  up to there when none of them fails.
\<close>

definition after :: "externs \<Rightarrow> nat \<Rightarrow> Simulator \<Rightarrow> Simulator" where
  "after ext n s = ((\<lambda>s. snd (step ext s)) ^^ n) s"

definition sound_run :: "externs \<Rightarrow> nat \<Rightarrow> Simulator \<Rightarrow> bool" where
  "sound_run ext n s \<longleftrightarrow> (\<forall>i < n. \<exists>x. fst (step ext (after ext i s)) = Ok x)"

lemma after_simps [simp]:
  "after ext 0 s = s" "after ext (Suc n) s = after ext n (snd (step ext s))"
  "after ext m (after ext n s) = after ext (n + m) s"
  by (simp_all add: after_def funpow_swap1 add.commute [of n m] funpow_add del: funpow.simps(2))
    (simp add: funpow_Suc_right del: funpow.simps(2))

lemma after_step: "snd (step ext (after ext n s)) = after ext (Suc n) s"
  by (simp add: after_def)

lemma sound_run_simps [simp]:
  "sound_run ext 0 s"
  "sound_run ext (Suc n) s \<longleftrightarrow> (\<exists>x. fst (step ext s) = Ok x) \<and> sound_run ext n (snd (step ext s))"
  by (auto simp: sound_run_def less_Suc_eq_0_disj)

lemma sound_run_append: "sound_run ext n s \<Longrightarrow> sound_run ext m (after ext n s) \<Longrightarrow> sound_run ext (n + m) s"
  by (induction n arbitrary: s) simp_all

text \<open>
  A machine that cannot tell some states apart: its steps from them report the same, but for the
  watchpoints.
\<close>

locale blind_machine =
  fixes ext :: externs and same :: "Simulator \<Rightarrow> Simulator \<Rightarrow> bool"
  assumes same_sym: "same s t \<Longrightarrow> same t s"
    and same_step: "oblivious unwatched same (step ext)"
begin

lemma step_same:
  assumes "same s t" and "step ext s = (r, s')"
  obtains r' t' where "step ext t = (r', t')" "same s' t'" "map_outcome id unwatched r = map_outcome id unwatched r'"
  using same_step assms that by (cases "step ext t") (force simp: oblivious_def)

lemma runs_same: "same s t \<Longrightarrow> runs_on ext n s s' \<Longrightarrow> \<exists>t'. runs_on ext n t t' \<and> same s' t'"
proof (induction n arbitrary: s t)
  case (Suc n)
  from Suc.prems(2) obtain x u where u: "step ext s = (Ok x, u)" "unwatched x = None" "runs_on ext n u s'"
    by (auto simp: unwatched_None)
  from step_same [OF Suc.prems(1) u(1)] obtain q v where v: "step ext t = (q, v)" "same u v"
    and q: "map_outcome id unwatched (Ok x) = map_outcome id unwatched q" .
  from q u(2) obtain y where "q = Ok y" "unwatched y = None" by (cases q) auto
  with v Suc.IH [OF v(2) u(3)] show ?case by (auto simp: unwatched_None)
qed simp

lemma ends_same: "same s t \<Longrightarrow> run_ends ext s r s' \<Longrightarrow> \<exists>t'. run_ends ext t r t' \<and> same s' t'"
proof -
  assume st: "same s t" and "run_ends ext s r s'"
  then obtain q where q: "step ext s = (q, s')" and qr: "(\<exists>e. q = Err e \<and> r = Inr (RunError e)) \<or>
      (\<exists>p. q = Panic p \<and> r = Inl p) \<or> (\<exists>code. q = Ok (Some (Paused code)) \<and> r = Inr (RunPaused code)) \<or>
      (\<exists>code. q = Ok (Some (Halted code)) \<and> r = Inr (RunHalted code))"
    by (auto simp: run_ends_iff)
  from step_same [OF st q] obtain q' t' where
    "step ext t = (q', t')" "same s' t'" "map_outcome id unwatched q = map_outcome id unwatched q'" .
  with qr show ?thesis
    by (auto simp: run_ends_iff map_outcome_eq unwatched_exit intro!: exI [of _ t'])
qed

lemma same_after: "same s t \<Longrightarrow> same (after ext n s) (after ext n t)"
  using same_step by (induction n arbitrary: s t) (auto simp: oblivious_def)

lemma sound_same: "same s t \<Longrightarrow> sound_run ext n s \<Longrightarrow> sound_run ext n t"
proof (induction n arbitrary: s t)
  case (Suc n)
  obtain r s' where s: "step ext s = (r, s')" by fastforce
  from step_same [OF Suc.prems(1) s] obtain q t' where t: "step ext t = (q, t')" "same s' t'"
    "map_outcome id unwatched r = map_outcome id unwatched q" .
  with Suc s show ?case by (cases q) auto
qed simp

lemma completion_same:
  assumes "same s t" and "run_to_completion ext s = Some (r, s')"
  shows "\<exists>t'. run_to_completion ext t = Some (r, t') \<and> same s' t'"
proof -
  from assms(2) obtain n u where u: "runs_on ext n s u" "run_ends ext u r s'"
    using run_to_completion_ran [of ext s "(r, s')"] by auto
  from runs_same [OF assms(1) u(1)] obtain v where v: "runs_on ext n t v" "same u v" by blast
  from ends_same [OF v(2) u(2)] v(1) show ?thesis by (blast intro: run_to_completion_runs)
qed

lemma completion_none: "same s t \<Longrightarrow> run_to_completion ext s = None \<Longrightarrow> run_to_completion ext t = None"
  using completion_same [OF same_sym, of s t] by (cases "run_to_completion ext t") fastforce+

end

text \<open>
  The simulator, with libraries that do what they document, is such a machine for simulators that
  look the same to the program.
\<close>

definition program_libraries :: "externs \<Rightarrow> bool" where
  "program_libraries ext \<longleftrightarrow> externs_documented ext \<and> exec_generic (exec_step ext)"

definition alike :: "externs \<Rightarrow> Simulator \<Rightarrow> Simulator \<Rightarrow> bool" where
  "alike ext s t \<longleftrightarrow> (if program_libraries ext then same_program s t else s = t)"

interpretation sim_blind: blind_machine ext "alike ext" for ext
proof
  show "alike ext s t \<Longrightarrow> alike ext t s" for s t
    by (auto simp: alike_def same_program_sym split: if_splits)
  show "oblivious unwatched (alike ext) (step ext)"
    using oblivious_step [of ext] by (cases "program_libraries ext") (auto simp: program_libraries_def alike_def oblivious_def)
qed

lemma alike_documented: "program_libraries ext \<Longrightarrow> alike ext s t \<longleftrightarrow> same_program s t"
  by (simp add: alike_def)

section \<open>What a looking client does\<close>

text \<open>The calls that change neither a register nor a byte; a watched range must not wrap around.\<close>

fun looking :: "target_call \<Rightarrow> bool" where
  "looking (BaseCall (WriteRegisters regs)) = False"
| "looking (BaseCall (WriteRegister reg_id val)) = False"
| "looking (BaseCall (WriteAddrs addr data)) = False"
| "looking (BreakpointCall (AddHwWatchpoint addr len kind)) = (unat addr + unat len < 2 ^ 32)"
| "looking call = True"

text \<open>
  A session of such a client. \<open>shown\<close> restricts what its waits return: to any outcome, or to
  those in which no step of the program has failed, such as a stop at an exit or a pause.
\<close>

inductive observes ::
    "externs \<Rightarrow> 'c conn \<Rightarrow> ((wait_error, event) outcome \<Rightarrow> bool) \<Rightarrow> Debugger \<times> 'c \<Rightarrow> Debugger \<times> 'c \<Rightarrow> bool"
  for ext ops shown where
  observe_start: "observes ext ops shown t t"
| observe_call: "observes ext ops shown t (d, c) \<Longrightarrow> looking call \<Longrightarrow> observes ext ops shown t (perform call d, c)"
| observe_wait: "observes ext ops shown t (d, c) \<Longrightarrow> wait_for_stop_reason ext ops (d, c) = (r, t') \<Longrightarrow>
     shown r \<Longrightarrow> observes ext ops shown t t'"
| observe_conn: "observes ext ops shown t (d, c) \<Longrightarrow> observes ext ops shown t (d, c')"

definition no_failure :: "(wait_error, event) outcome \<Rightarrow> bool" where
  "no_failure r \<longleftrightarrow> (\<exists>ev. r = Ok ev \<and> ev \<noteq> TargetStopped (Terminated EXC_BAD_ACCESS))"

text \<open>Such a client's session is one of the sessions of the stub.\<close>

lemma looking_typed: "looking call \<Longrightarrow> call_typed call"
  by (cases call rule: looking.cases) auto

lemma observes_session: "observes ext ops shown t t' \<Longrightarrow> session ext ops t t'"
proof (induction rule: observes.induct)
  case (observe_call t d c call)
  then show ?case by (blast intro: session_next stub_call looking_typed)
next
  case (observe_wait t d c r t')
  then have "snd (wait_for_stop_reason ext ops (d, c)) = t'" by simp
  with observe_wait.IH show ?case by (metis session_next stub_wait)
qed (blast intro: session_start session_next stub_conn)+

text \<open>A wait runs the program for some steps.\<close>

definition waited :: "externs \<Rightarrow> Simulator \<Rightarrow> (wait_error, event) outcome \<Rightarrow> Simulator \<Rightarrow> bool" where
  "waited ext s r s' \<longleftrightarrow> (\<exists>n. s' = after ext n s \<and> (no_failure r \<longrightarrow> sound_run ext n s))"

lemma waited_none: "waited ext s r s"
  by (auto simp: waited_def intro: exI [of _ 0])

lemma waited_step: "step ext s = (q, t) \<Longrightarrow> (no_failure r \<Longrightarrow> \<exists>x. q = Ok x) \<Longrightarrow> waited ext t r s' \<Longrightarrow> waited ext s r s'"
  unfolding waited_def
proof (elim exE conjE)
  fix n
  assume "step ext s = (q, t)" "no_failure r \<Longrightarrow> \<exists>x. q = Ok x" "s' = after ext n t" "no_failure r \<longrightarrow> sound_run ext n t"
  then show "\<exists>n. s' = after ext n s \<and> (no_failure r \<longrightarrow> sound_run ext n s)" by (intro exI [of _ "Suc n"]) simp
qed

lemma read_incoming_state: "read_incoming ops (d, c) = (r, (d', c')) \<Longrightarrow> d' = d"
  by (auto simp: read_incoming_def split: prod.splits option.splits)

lemma run_loop_waits:
  assumes "run_loop ext ops check cycles (d, c) = (r, (d', c'))"
  shows "waited ext (simulator d) r (simulator d')"
  using assms
proof (induction "2 ^ 31 - cycles" arbitrary: cycles d c rule: less_induct)
  case less
  obtain b c1 where p: "(if cycles mod 1024 = 0 then poll_incoming_data ops else ret False) (d, c) = (Ok b, (d, c1))"
    using poll_state [of ops d c] by (cases "cycles mod 1024 = 0") (auto simp: ret_def)
  note run = less.prems(1) [unfolded run_loop_turn [OF p]]
  obtain q s where st: "step ext (simulator d) = (q, s)" by fastforce
  show ?case
  proof (cases "b \<or> cycles + 1 \<ge> 2 ^ 31")
    case True
    with run have "d' = d" using read_incoming_state [of ops d c1] by (auto split: if_splits)
    then show ?thesis using waited_none by simp
  next
    case go: False
    show ?thesis
    proof (cases "q = Ok None \<and> check (with_sim s d) = None")
      case True
      with run st go have "run_loop ext ops check (cycles + 1) (with_sim s d, c1) = (r, (d', c'))" by simp
      moreover have "2 ^ 31 - (cycles + 1) < 2 ^ 31 - cycles" using go by (intro diff_less_mono2) simp_all
      ultimately have "waited ext (simulator (with_sim s d)) r (simulator d')" by (intro less.hyps)
      with True show ?thesis by (intro waited_step [OF st]) (simp_all add: with_sim_def)
    next
      case False
      with run st go have "simulator d' = s" "no_failure r \<longrightarrow> (\<exists>x. q = Ok x)"
        by (auto simp: with_sim_def no_failure_def split: outcome.splits option.splits)
      with waited_none show ?thesis by (intro waited_step [OF st]) auto
    qed
  qed
qed

lemma wait_waits:
  assumes "wait_for_stop_reason ext ops (d, c) = (r, (d', c'))"
  shows "waited ext (simulator d) r (simulator d')"
proof (cases "exec_mode d")
  case Continue
  with assms show ?thesis by (intro run_loop_waits) (simp add: wait_defs bindM_getM)
next
  case (RangeStep a b)
  with assms show ?thesis by (intro run_loop_waits) (simp add: wait_defs bindM_getM)
next
  case Interrupted
  obtain b c1 where "poll_incoming_data ops (d, c) = (Ok b, (d, c1))" using poll_state [of ops d c] by blast
  with assms Interrupted have "d' = d" using read_incoming_state [of ops d c1]
    by (auto simp: wait_defs bindM_getM wait_interrupted_def bindM_def [of "poll_incoming_data ops"] ret_def split: if_splits)
  with waited_none show ?thesis by simp
next
  case Step
  with assms have w: "wait_step ext ops (d, c) = (r, (d', c'))" by (simp add: wait_defs bindM_getM)
  obtain q s where st: "step ext (simulator d) = (q, s)" by fastforce
  obtain b c1 where p: "poll_incoming_data ops (d, c) = (Ok b, (d, c1))" using poll_state [of ops d c] by blast
  show ?thesis
  proof (cases b)
    case True
    with p w have "d' = d" using read_incoming_state [of ops d c1] by (auto simp: wait_step_def bindM_def)
    with waited_none show ?thesis by simp
  next
    case False
    with p w have "simulator d' = s" "no_failure r \<longrightarrow> (\<exists>x. q = Ok x)"
      by (auto simp: wait_step_def bindM_def [of "poll_incoming_data ops"] bindM_def [of "run_step ext"] bindM_getM
          run_step_eq st ret_def with_sim_def no_failure_def split: outcome.splits option.splits)
    with waited_none show ?thesis by (intro waited_step [OF st]) auto
  qed
qed

text \<open>A looking call leaves a simulator that looks the same to the program.\<close>

lemma view_eq_read_priv:
  assumes "view_eq m0 m"
  shows "view_eq m0 (snd (read_mem_with_privileges a sz True m))"
proof (cases "out_of_range a")
  case False
  with assms show ?thesis
    using read_mem_spec [of m True a sz] mem_wf_touch [of m callback_read_mem True a]
    by (simp add: view_eq_def)
qed (use assms in \<open>simp add: read_mem_unfold\<close>)

abbreviation looks_like :: "Simulator \<Rightarrow> Debugger \<Rightarrow> bool" where
  "looks_like s d \<equiv> same_program s (simulator d)"

lemma preserves_looking_parts:
  "preserves (looks_like s) (on_mem (read_mem_with_privileges a sz True))"
  "preserves (looks_like s) (copy_from_slice buf bs)" "preserves (looks_like s) (copy_range_to_buf data off len buf)"
  "preserves (looks_like s) (set_exec_mode mode)"
  "preserves (looks_like s) (modM (\<lambda>d. d\<lparr>breakpoints := f (breakpoints d)\<rparr>))"
  "preserves (looks_like s) (handle_monitor_cmd cmd)"
  using view_eq_read_priv
  by (auto simp: preserves_def on_mem_def copy_from_slice_def copy_range_to_buf_def set_exec_mode_def modM_def
      handle_monitor_cmd_def ret_def panicM_def Let_def same_program_def case_prod_beta split: option.split)

lemma preserves_looking_read: "preserves (looks_like s) (read_addrs_loop a e data)"
  by (induction a e data rule: read_addrs_loop.induct)
    (auto intro!: preserves_bindM preserves_looking_parts)

lemma preserves_looking_watchpoints:
  "unat a + unat l < 2 ^ 32 \<Longrightarrow> preserves (looks_like s) (add_hw_watchpoint a l k)"
  "preserves (looks_like s) (remove_hw_watchpoint a l k)"
  by (auto simp: preserves_def add_hw_watchpoint_def remove_hw_watchpoint_def bindM_run ret_def
      set_watchpoints_def get_watchpoints_def same_program_def view_eq_def mem_wf_def watchpoints_fit_def word_at_def
      dest: notin_set_remove1 set_remove1_subset [THEN subsetD])

lemma preserves_looking:
  "preserves (looks_like s) read_registers" "preserves (looks_like s) (read_register reg_id buf)"
  "preserves (looks_like s) (read_addrs addr data)"
  "preserves (looks_like s) (resume sig)" "preserves (looks_like s) (single_step sig)"
  "preserves (looks_like s) (resume_range_step a b)"
  "preserves (looks_like s) (add_sw_breakpoint a)" "preserves (looks_like s) (remove_sw_breakpoint a)"
  "preserves (looks_like s) (get_exec_file off len buf)" "preserves (looks_like s) (host_open name)"
  "preserves (looks_like s) (host_close fd)" "preserves (looks_like s) (pread fd count off64 buf)"
  "preserves (looks_like s) (fstat fd)" "preserves (looks_like s) setfs"
  "preserves (looks_like s) (readlink name buf)" "preserves (looks_like s) on_interrupt"
  using preserves_looking_parts preserves_looking_read
  by (auto simp: read_registers_def read_register_def read_addrs_def Let_def add_sw_breakpoint_def
      remove_sw_breakpoint_def resume_def single_step_def resume_range_step_def get_exec_file_def host_open_def
      host_close_def pread_def fstat_def setfs_def readlink_def on_interrupt_def
      intro!: preserves_bindM split: RiscvRegId.split)

lemma looking_alike:
  assumes "looking call" and "looks_like s d"
  shows "looks_like s (perform call d)"
proof -
  note ops = preserves_looking preserves_looking_parts(6) preserves_looking_watchpoints
  note ops = ops [unfolded preserves_def]
  have "looks_like s (perform_base b d)" if "call = BaseCall b" for b
    using assms that ops by (cases b) auto
  moreover have "looks_like s (perform_resume b d)" for b using assms ops by (cases b) auto
  moreover have "looks_like s (perform_breakpoint b d)" if "call = BreakpointCall b" for b
    using assms that ops by (cases b) auto
  moreover have "looks_like s (perform_host_io b d)" for b using assms ops by (cases b) auto
  ultimately show ?thesis using assms ops by (cases call) auto
qed

section \<open>Sessions of a looking client\<close>

lemma observes_follow_program:
  assumes "observes ext ops shown t t'" and "program_libraries ext"
    and "same_program (simulator (fst t)) (simulator (fst t))"
  shows "\<exists>n. looks_like (after ext n (simulator (fst t))) (fst t') \<and>
     ((\<forall>r. shown r \<longrightarrow> no_failure r) \<longrightarrow> sound_run ext n (simulator (fst t)))"
  using assms
proof (induction rule: observes.induct)
  case (observe_start t)
  then show ?case by (intro exI [of _ 0]) simp
next
  case (observe_call t d c call)
  then show ?case using looking_alike by (metis fst_conv)
next
  case (observe_wait t d c r t')
  let ?s = "simulator (fst t)"
  have lib: "program_libraries ext" by (rule observe_wait.prems(1))
  obtain d' c' where t': "t' = (d', c')" by (cases t')
  from observe_wait obtain n where n: "looks_like (after ext n ?s) d"
    "(\<forall>r. shown r \<longrightarrow> no_failure r) \<longrightarrow> sound_run ext n ?s" by auto
  from wait_waits [OF observe_wait.hyps(2) [unfolded t']] obtain k where
    k: "simulator d' = after ext k (simulator d)" "no_failure r \<longrightarrow> sound_run ext k (simulator d)"
    by (auto simp: waited_def)
  have al: "alike ext (after ext n ?s) (simulator d)" "alike ext (simulator d) (after ext n ?s)"
    using n(1) alike_documented [OF lib] same_program_sym by auto
  have "same_program (after ext (n + k) ?s) (simulator d')"
    using sim_blind.same_after [OF al(1), of k] alike_documented [OF lib] k(1) by simp
  moreover have "sound_run ext (n + k) ?s" if "\<forall>r. shown r \<longrightarrow> no_failure r"
    using that n(2) k(2) observe_wait.hyps(3) sim_blind.sound_same [OF al(2)] sound_run_append by blast
  ultimately show ?case using t' by auto
qed auto

lemma finish_channels:
  assumes "\<And>ch. get_channel ch s = get_channel ch t"
  shows "finish s = finish t"
  using assms [of ChStdout] assms [of ChStderr] assms [of ChJournal]
  by (intro ext) (simp add: finish_prints)

text \<open>Runs that end in the same way and with the same output.\<close>

abbreviation same_end ::
    "((panic + run_end) \<times> Simulator) option \<Rightarrow> ((panic + run_end) \<times> Simulator) option \<Rightarrow> bool" where
  "same_end \<equiv> rel_option (rel_prod (=) (\<lambda>s t. finish s = finish t))"

lemma completion_alike:
  assumes "program_libraries ext" and "same_program s t"
  shows "same_end (run_to_completion ext s) (run_to_completion ext t)"
proof -
  have al: "alike ext s t" using assms alike_documented by blast
  show ?thesis
  proof (cases "run_to_completion ext s")
    case None
    with sim_blind.completion_none [OF al] show ?thesis by simp
  next
    case (Some y)
    obtain r u where y: "y = (r, u)" by (cases y)
    from sim_blind.completion_same [OF al] Some y obtain v where
      v: "run_to_completion ext t = Some (r, v)" "same_program u v"
      using alike_documented [OF assms(1)] by blast
    then have "finish u = finish v" using same_program_reads by (intro finish_channels) blast
    with Some y v show ?thesis by simp
  qed
qed

text \<open>
  To run on after steps that did not fail ends the same way as to run from the start: a program
  that has exited or paused already does so again.
\<close>

lemma completion_after:
  assumes "program_libraries ext" and "sim_wf s" and "same_program s s" and "sound_run ext n s"
  shows "same_end (run_to_completion ext s) (run_to_completion ext (after ext n s))"
  using assms(2-4)
proof (induction n arbitrary: s)
  case 0
  show ?case using completion_alike [OF assms(1) "0.prems"(2)] by simp
next
  case (Suc n)
  then obtain x s1 where st: "step ext s = (Ok x, s1)" "sound_run ext n s1" by (cases "step ext s") auto
  have al: "same_program s1 s1"
    using sim_blind.same_after [of ext s s 1] Suc.prems(2) alike_documented [OF assms(1)] st(1) by simp
  have doc: "externs_documented ext" using assms(1) by (simp add: program_libraries_def)
  have wf1: "sim_wf s1" using preservesD [OF preserves_step [OF doc] Suc.prems(1)] st(1) by blast
  show ?case
  proof (cases "\<exists>e. x = Some e \<and> (\<forall>k a. e \<noteq> HwWatchPoint k a)")
    case False
    then have "x = None \<or> (\<exists>k a. x = Some (HwWatchPoint k a))" by (cases x) auto
    then have "run_to_completion ext s = run_to_completion ext s1"
      using st(1) by (subst run_to_completion.simps) auto
    with Suc.IH [OF wf1 al st(2)] st(1) show ?thesis by simp
  next
    case True
    then obtain e where e: "x = Some e" "\<forall>k a. e \<noteq> HwWatchPoint k a" by blast
    have wf: "sim_wf s" "watchpoints_fit (mem s)"
      using Suc.prems(1,2) by (auto simp: same_program_def view_eq_def)
    have at: "at_exit e s1" using step_exit_at_exit [OF doc wf] st(1) e by simp
    from exit_stays [OF doc at, of n] obtain m where m: "after ext n s1 = s1\<lparr>mem := m\<rparr>" "at_exit e (s1\<lparr>mem := m\<rparr>)"
      by (auto simp: after_def)
    from step_at_exit [OF doc m(2)] obtain m' where m': "step ext (s1\<lparr>mem := m\<rparr>) = (Ok (Some e), s1\<lparr>mem := m'\<rparr>)"
      by auto
    have "get_channel ch (s1\<lparr>mem := m'\<rparr>) = get_channel ch s1" for ch by (cases ch) simp_all
    then have "finish s1 = finish (s1\<lparr>mem := m'\<rparr>)" by (intro finish_channels) simp
    then show ?thesis
      using st(1) e m(1) m' run_to_completion.simps [of ext s] run_to_completion.simps [of ext "s1\<lparr>mem := m\<rparr>"]
      by (cases e) auto
  qed
qed

lemma main_same_end:
  assumes "boot minimal_parse elf_data l = (Ok s, l)"
    and "gdb_run \<lparr>elf = elf_data, simulator = s, exec_mode = Continue, breakpoints = {}\<rparr> = (Ok Disconnect, d)"
    and "same_end (run_to_completion ext s) (run_to_completion ext (simulator d))"
  shows "main_program ext minimal_parse net gdb_run (Some elf_data) l =
     main_program ext minimal_parse net (\<lambda>d. (Ok Disconnect, d)) (Some elf_data) l"
proof -
  note main_defs = main_program_def bindM_def [of "boot a b" for a b] assms(1,2) debugger_takeover_def
    wait_for_tcp_outcome bindM_run
  show ?thesis
  proof (cases "run_to_completion ext s")
    case None
    with assms(3) have "run_to_completion ext (simulator d) = None" by (simp add: option.rel_sel)
    with None show ?thesis by (cases "connects net") (simp_all add: main_defs, simp add: bindM_def)
  next
    case (Some y)
    obtain r u where y: "y = (r, u)" by (cases y)
    with Some assms(3) obtain v where "run_to_completion ext (simulator d) = Some (r, v)" "finish u = finish v"
      by (auto simp: option_rel_Some1 rel_prod_sel)
    with Some y show ?thesis by (cases "connects net"; cases r) (simp_all add: main_defs)
  qed
qed

text \<open>
  Property C11. A client only looks (it writes no register and no byte, and the ranges it watches do
  not wrap around), beginning in a state that satisfies the invariants, and the libraries do what
  they document. Whatever else it asks for, and whatever its waits return, the program it is shown
  is at every moment the program's own state after some number of its steps, as the program would
  see it: the same registers, bytes, cycles, input and channels.
\<close>

theorem debugging_follows_program:
  assumes "program_libraries ext" and "sim_wf (simulator d)" and "watchpoints_fit (mem (simulator d))"
    and "observes ext ops (\<lambda>_. True) (d, c) (d', c')"
  shows "\<exists>n. let s = after ext n (simulator d) in hart_state (simulator d') = hart_state s \<and>
     byte_at (mem (simulator d')) = byte_at (mem s) \<and>
     session_cycle_callback (mem (simulator d')) = session_cycle_callback (mem s) \<and>
     stdin (simulator d') = stdin s \<and> (\<forall>ch. get_channel ch (simulator d') = get_channel ch s)"
proof -
  have "same_program (simulator d) (simulator d)"
    using assms(2,3) by (simp add: same_program_def view_eq_refl sim_wf_def)
  from observes_follow_program [OF assms(4,1)] this obtain n where
    s: "same_program (after ext n (simulator d)) (simulator d')" by auto
  then have "byte_at (mem (after ext n (simulator d))) = byte_at (mem (simulator d'))"
    by (auto simp: same_program_def intro: view_eq_bytes)
  with same_program_reads [OF s] show ?thesis by (intro exI [of _ n]) (simp add: Let_def)
qed

text \<open>
  Property C3. Debugging leaves no trace. A client only looks (it writes no register and no byte,
  and the ranges it watches do not wrap around) and disconnects; each of its waits returned, and
  none reported a step that had failed; the libraries do what they document. Then the whole program
  prints what it prints when the client disconnects at once, and ends the same way. This holds for
  a program that exited or paused under the debugger, and was perhaps resumed then, too.
\<close>

theorem debugging_leaves_no_trace:
  assumes "program_libraries ext" and "boot minimal_parse elf_data l = (Ok s, l)"
    and "observes ext ops no_failure
       (\<lparr>elf = elf_data, simulator = s, exec_mode = Continue, breakpoints = {}\<rparr>, c) (d, c')"
    and "gdb_run \<lparr>elf = elf_data, simulator = s, exec_mode = Continue, breakpoints = {}\<rparr> = (Ok Disconnect, d)"
  shows "main_program ext minimal_parse net gdb_run (Some elf_data) l =
     main_program ext minimal_parse net (\<lambda>d. (Ok Disconnect, d)) (Some elf_data) l"
proof -
  have same: "same_program s s"
    using boot_wf [OF assms(2)] by (simp add: same_program_def view_eq_refl sim_wf_def)
  then obtain n where n: "same_program (after ext n s) (simulator d)" "sound_run ext n s"
    using observes_follow_program [OF assms(3,1)] by auto
  from completion_after [OF assms(1) boot_wf(1) [OF assms(2)] same n(2)] completion_alike [OF assms(1) n(1)]
  have "same_end (run_to_completion ext s) (run_to_completion ext (simulator d))"
    by (cases "run_to_completion ext s") (auto simp: option_rel_Some1 rel_prod_sel option.rel_sel)
  then show ?thesis
    by (rule main_same_end [where minimal_parse = minimal_parse and gdb_run = gdb_run and d = d, OF assms(2,4)])
qed

end
