(* ===== verification/Accelerators.thy ===== *)
theory Accelerators
  imports Ecall
begin

text \<open>
  What the \<open>SHA\<close> and \<open>BIGINT\<close> ecalls of \<open>src/vm/simulator.rs\<close> compute, on the bytes of the
  guest's memory.
\<close>

section \<open>Aligned blocks of words\<close>

lemma load_append: "load f ptr (j + k) = load f ptr j @ load f (ptr + of_nat j) k"
proof (induction j arbitrary: ptr)
  case (Suc j)
  have "ptr + of_nat (Suc j) = ptr + 1 + of_nat j" by simp
  with Suc.IH [of "ptr + 1"] show ?case by (simp add: load_Suc add.assoc del: of_nat_Suc)
qed simp

lemma aligned_Word_offset:
  assumes "aligned Word ptr" and "unat ptr + 4 * i < 4294967296"
  shows "aligned Word (ptr + of_nat (i * 4))"
proof -
  have "unat (ptr + of_nat (i * 4)) = unat ptr + 4 * i"
    using assms(2) by (simp add: unat_add32 mult.commute del: of_nat_mult)
  with assms(1) show ?thesis by (simp add: aligned_def)
qed

lemma words_of_load: "words_to_bytes [le_word (load f a 4)] = load f a 4"
  by (simp add: to_le_bytes_le_word)

lemma guest_range_offset:
  assumes "guest_range ptr n" and "k < n"
  shows "unat ptr + k < 4294967296" and "in_range (ptr + of_nat k)"
  using assms guest_range_mapped [OF assms(1)] by (auto simp: guest_range_def cfg_simps)

lemma read_words_ok:
  assumes "guest_inv m" and "aligned Word ptr" and "guest_range ptr (4 * (i + n))"
  shows "\<exists>ws m'. read_words e ptr i n m = (Ok ws, m') \<and> length ws = n \<and>
           words_to_bytes ws = load (byte_at m) (ptr + of_nat (4 * i)) (4 * n) \<and>
           guest_inv m' \<and> byte_at m' = byte_at m"
  using assms
proof (induction n arbitrary: i m)
  case (Suc n)
  let ?a = "ptr + of_nat (i * 4)"
  have rng: "unat ptr + i * 4 < 4294967296" "in_range ?a"
    using guest_range_offset [OF Suc.prems(3), of "i * 4"] by simp_all
  have al: "aligned Word ?a"
    using aligned_Word_offset [OF Suc.prems(2), of i] rng(1) by (simp add: mult.commute)
  obtain m1 where r: "read_mem ?a Word m = (Ok (Some (le_word (load (byte_at m) ?a 4))), m1)"
    and m1: "byte_at m1 = byte_at m" "guest_inv m1"
    using read_word [of m False ?a] Suc.prems(1) rng(2) al guest_inv_frame
    by (auto simp: guest_inv_def read_mem_def)
  have "guest_range ptr (4 * (Suc i + n))" using Suc.prems(3) by (simp add: add.commute)
  from Suc.IH [OF m1(2) Suc.prems(2) this] obtain ws m2 where
    ws: "read_words e ptr (Suc i) n m1 = (Ok ws, m2)" "length ws = n"
      "words_to_bytes ws = load (byte_at m) (ptr + of_nat (4 * Suc i)) (4 * n)"
      "guest_inv m2" "byte_at m2 = byte_at m"
    using m1(1) by auto
  have "words_to_bytes (le_word (load (byte_at m) ?a 4) # ws) =
      load (byte_at m) ?a 4 @ load (byte_at m) (?a + of_nat 4) (4 * n)"
    by (simp add: ws(3) to_le_bytes_le_word ac_simps)
  also have "\<dots> = load (byte_at m) ?a (4 + 4 * n)" by (rule load_append [symmetric])
  finally have bytes: "words_to_bytes (le_word (load (byte_at m) ?a 4) # ws) =
      load (byte_at m) (ptr + of_nat (4 * i)) (4 * Suc n)" by (simp add: mult.commute)
  have "read_words e ptr i (Suc n) m = (Ok (le_word (load (byte_at m) ?a 4) # ws), m2)"
    using rng(1) by (simp add: bindM_run bindM_def [of "read_mem a Word" for a] r
        bindM_def [of "read_words e ptr (Suc i) n"] ws(1) ret_def del: of_nat_mult)
  with bytes ws(2,4,5) show ?case
    by (intro exI [of _ "le_word (load (byte_at m) ?a 4) # ws"] exI [of _ m2]) simp
qed (simp add: ret_def)

section \<open>SHA\<close>

text \<open>
  The specification: fold the compression function over the blocks, the first half of each
  from one array of 64-byte cells and the second half from another.
\<close>

primrec sha_spec ::
    "(u32 list \<Rightarrow> u8 list \<Rightarrow> u32 list) \<Rightarrow> (u32 \<Rightarrow> u8) \<Rightarrow> nat \<Rightarrow> u32 \<Rightarrow> u32 \<Rightarrow> u32 list \<Rightarrow> u32 list" where
  "sha_spec compress f 0 p q st = st"
| "sha_spec compress f (Suc n) p q st =
     sha_spec compress f n (p + 64) (q + 64) (compress st (load f p 32 @ load f q 32))"

lemma words_to_bytes_append: "words_to_bytes (xs @ ys) = words_to_bytes xs @ words_to_bytes ys"
  by (induction xs) simp_all

lemma sha_blocks_ok:
  assumes "guest_inv m" and "aligned Word p" and "aligned Word q"
    and "guest_range p (64 * n)" and "guest_range q (64 * n)"
  shows "\<exists>m'. sha_blocks ext n p q st m = (Ok (sha_spec (compress256 ext) (byte_at m) n p q st), m') \<and>
           guest_inv m' \<and> byte_at m' = byte_at m"
  using assms
proof (induction n arbitrary: m p q st)
  case (Suc n)
  obtain ws m1 where w: "read_words CannotReadShaInput p 0 8 m = (Ok ws, m1)"
    "words_to_bytes ws = load (byte_at m) p 32" "guest_inv m1" "byte_at m1 = byte_at m"
    using read_words_ok [OF Suc.prems(1,2), of 0 8 CannotReadShaInput] Suc.prems(4)
    by (auto simp: guest_range_def)
  obtain vs m2 where v: "read_words CannotReadShaInput q 0 8 m1 = (Ok vs, m2)"
    "words_to_bytes vs = load (byte_at m) q 32" "guest_inv m2" "byte_at m2 = byte_at m"
    using read_words_ok [OF w(3) Suc.prems(3), of 0 8 CannotReadShaInput] Suc.prems(5) w(4)
    by (auto simp: guest_range_def)
  have up: "unat a + 64 < 4294967296 \<and> unat (a + 64) = unat a + 64 \<and> guest_range (a + 64) (64 * n) \<and>
      (aligned Word a \<longrightarrow> aligned Word (a + 64))" if "guest_range a (64 * Suc n)" for a
  proof -
    have lt: "unat a + 64 < 4294967296" using that by (simp add: guest_range_def cfg_simps)
    then have "unat (a + 64) = unat a + 64" by (simp add: unat_add32)
    with that lt show ?thesis by (auto simp: guest_range_def aligned_def mod_add_eq [symmetric])
  qed
  from Suc.IH [OF v(3), of "p + 64" "q + 64" "compress256 ext st (load (byte_at m) p 32 @ load (byte_at m) q 32)"]
  obtain m3 where "sha_blocks ext n (p + 64) (q + 64)
      (compress256 ext st (load (byte_at m) p 32 @ load (byte_at m) q 32)) m2 =
      (Ok (sha_spec (compress256 ext) (byte_at m) (Suc n) p q st), m3)" "guest_inv m3" "byte_at m3 = byte_at m"
    using up [OF Suc.prems(4)] up [OF Suc.prems(5)] Suc.prems(2,3) v(4) by auto
  then show ?case
    using up [OF Suc.prems(4)] up [OF Suc.prems(5)]
    by (simp add: bindM_run bindM_def [of "read_words e a b c" for e a b c] w(1,2) v(1,2) Let_def
        words_to_bytes_append)
qed (simp add: ret_def)

text \<open>The chaining state is kept big-endian in the guest's memory.\<close>

definition be_words :: "u8 list \<Rightarrow> u32 list" where
  "be_words bs = map swap_bytes (bytes_to_words bs)"

definition be_bytes :: "u32 list \<Rightarrow> u8 list" where
  "be_bytes ws = words_to_bytes (map swap_bytes ws)"

text \<open>
  Property C15. The \<open>SHA\<close> ecall writes, over the 32 bytes it is told to, the big-endian bytes of the
  compression function folded over its blocks, starting from the big-endian state it reads;
  it changes no other byte, moves to the next instruction and charges 73 cycles a block.
\<close>

theorem sha_ecall_hashes:
  fixes s :: Simulator and ext :: externs
  defines "f \<equiv> byte_at (mem s)" and "n \<equiv> unat (reg REG_A4 s)" and "out \<equiv> reg REG_A0 s"
  defines "st \<equiv> sha_spec (compress256 ext) f n (reg REG_A2 s) (reg REG_A3 s)
                  (be_words (load f (reg REG_A1 s) 32))"
  assumes "guest_inv (mem s)" and "length st = 8"
    and "guest_range (reg REG_A1 s) 32" and "guest_range out 32"
    and "guest_range (reg REG_A2 s) (64 * n)" and "guest_range (reg REG_A3 s) (64 * n)"
    and "aligned Word (reg REG_A2 s)" and "aligned Word (reg REG_A3 s)"
    and "73 * n < 2 ^ 32" and "unat (pc (hart_state s)) + 4 < 2 ^ 32"
  shows "\<exists>s'. ecall_sha ext s = (Ok (pc (hart_state s) + 4, None, 73 * n), s') \<and>
           byte_at (mem s') = overlay f out (be_bytes st) \<and> hart_state s' = hart_state s"
proof -
  obtain m1 where r: "read_loop (\<lambda>a. read_mem a Byte) CannotReadPreviousHash (reg REG_A1 s) 0 32 (mem s) =
      (Ok (load f (reg REG_A1 s) 32), m1)" "guest_inv m1" "byte_at m1 = f"
    using guest_store.read_loop_ok [OF assms(5), of "reg REG_A1 s" 0 32 CannotReadPreviousHash]
      guest_range_mapped [OF assms(7)] unfolding f_def by auto
  obtain m2 where b: "sha_blocks ext n (reg REG_A2 s) (reg REG_A3 s) (be_words (load f (reg REG_A1 s) 32)) m1 =
      (Ok st, m2)" "guest_inv m2" "byte_at m2 = f"
    using sha_blocks_ok [OF r(2) assms(11,12,9,10), of ext "be_words (load f (reg REG_A1 s) 32)"] r(3)
    unfolding st_def by auto
  have len: "length (be_bytes st) = 32" using assms(6) by (simp add: be_bytes_def)
  obtain m3 where w: "write_loop (\<lambda>a v. write_mem a Byte v) CannotWriteFinalHash out 0 (be_bytes st) m2 = (Ok (), m3)"
    "byte_at m3 = overlay f out (be_bytes st)"
    using guest_store.write_loop_ok [OF b(2), of out 0 "be_bytes st" CannotWriteFinalHash]
      guest_range_mapped [OF assms(8)] len b(3) by auto
  have regs: "reg i (s\<lparr>mem := m\<rparr>) = reg i s" for i m by (simp add: reg_def)
  have "unat (73 * reg REG_A4 s) = 73 * n"
    using assms(13) by (simp add: unat_word_ariths n_def)
  then have "ecall_sha ext s = (Ok (pc (hart_state s) + 4, None, 73 * n), s\<lparr>mem := m3\<rparr>)"
    using assms(13,14) r(1) b(1) w(1)
    by (simp add: ecall_sha_def bindM_run bindM_def [of "lift_mem g" for g] lift_mem_def Let_def
        n_def out_def be_words_def be_bytes_def ret_def)
  with w(2) show ?thesis by (intro exI [of _ "s\<lparr>mem := m3\<rparr>"]) simp
qed

section \<open>BIGINT\<close>

text \<open>
  What \<open>crypto_bigint\<close> documents of its arithmetic on 256-bit and 512-bit integers: overflow
  check, the two halves of a product, concatenation, remainder, resizing, and that a 256-bit
  integer has 32 bytes. That these bytes are little-endian is \<open>bigint_byte_order\<close>.
\<close>

definition bigint_documented :: "bigint_lib \<Rightarrow> bool" where
  "bigint_documented lib \<longleftrightarrow>
     (\<forall>x y. checked_mul256 lib x y = (if unat x * unat y < 2 ^ 256 then Some (x * y) else None)) \<and>
     (\<forall>x y. mul_wide256 lib x y =
        (word_of_nat (unat x * unat y), word_of_nat (unat x * unat y div 2 ^ 256))) \<and>
     (\<forall>hi lo. unat (concat512 lib hi lo) = unat hi * 2 ^ 256 + unat lo) \<and>
     (\<forall>w n. n \<noteq> 0 \<longrightarrow> unat (rem512 lib w n) = unat w mod unat n) \<and>
     (\<forall>x. unat (resize_up lib x) = unat x) \<and>
     (\<forall>w. unat (resize_down lib w) = unat w mod 2 ^ 256) \<and>
     (\<forall>x. length (to_le_bytes256 lib x) = 32)"

text \<open>The number that bytes in little-endian order stand for.\<close>

primrec nat_of_bytes :: "u8 list \<Rightarrow> nat" where
  "nat_of_bytes [] = 0"
| "nat_of_bytes (b # bs) = unat b + 256 * nat_of_bytes bs"

definition bigint_byte_order :: "bigint_lib \<Rightarrow> bool" where
  "bigint_byte_order lib \<longleftrightarrow>
     (\<forall>bs. length bs = 32 \<longrightarrow> unat (from_le_bytes256 lib bs) = nat_of_bytes bs) \<and>
     (\<forall>x. \<forall>k < 32. unat (to_le_bytes256 lib x ! k) = unat x div 256 ^ k mod 256)"

lemma unat_256: "unat (x :: 256 word) < 2 ^ 256"
  using unsigned_less [of x] by simp

lemma word_of_unat: "unat (w :: 256 word) = k \<Longrightarrow> w = word_of_nat k"
  by auto

text \<open>
  The number that the ecall computes: the product modulo \<open>n\<close>, through the full 512-bit product;
  with \<open>n\<close> zero the product, if it fits.
\<close>

lemma bigint_multiplies_modulo:
  assumes "bigint_documented lib"
  shows "bigint_result lib x y n =
     (if n = 0 then (if unat x * unat y < 2 ^ 256 then Some (x * y) else None)
      else Some (word_of_nat (unat x * unat y mod unat n)))"
proof (cases "n = 0")
  case False
  let ?p = "unat x * unat y"
  let ?w = "concat512 lib (word_of_nat (?p div 2 ^ 256)) (word_of_nat ?p)"
  have "?p < 2 ^ 256 * 2 ^ 256" using unat_256 [of x] unat_256 [of y] by (intro mult_strict_mono) simp_all
  then have hi: "?p div 2 ^ 256 < 2 ^ 256" by (simp add: div_less_iff_less_mult)
  have "unat (word_of_nat (?p div 2 ^ 256) :: 256 word) = ?p div 2 ^ 256"
    using hi by (simp only: unat_of_nat) simp
  moreover have "unat (word_of_nat ?p :: 256 word) = ?p mod 2 ^ 256" by (simp only: unat_of_nat) simp
  ultimately have w: "unat ?w = ?p"
    using assms div_mult_mod_eq [of ?p "2 ^ 256"] unfolding bigint_documented_def by metis
  have n: "unat (resize_up lib n) = unat n" using assms by (simp add: bigint_documented_def)
  then have n0: "resize_up lib n \<noteq> 0" using False by (metis unat_0 unat_eq_zero)
  let ?r = "rem512 lib ?w (resize_up lib n)"
  have "unat ?r = ?p mod unat n"
    using assms n0 w n unfolding bigint_documented_def by metis
  moreover have "?p mod unat n < 2 ^ 256"
    using False unat_256 [of n] by (metis bits_mod_div_trivial less_trans mod_less_divisor unat_gt_0)
  ultimately have "unat (resize_down lib ?r) = ?p mod unat n"
    using assms unfolding bigint_documented_def by (metis mod_less)
  then have "resize_down lib ?r = word_of_nat (?p mod unat n)"
    by (rule word_of_unat)
  then show ?thesis
    using False assms by (simp add: bigint_result_def bigint_documented_def Let_def)
qed (use assms in \<open>simp add: bigint_result_def bigint_documented_def\<close>)

text \<open>The result's words are stored by single-byte accesses, four bytes apart.\<close>

fun low_bytes :: "(u32 \<Rightarrow> u8) \<Rightarrow> u32 \<Rightarrow> u32 list \<Rightarrow> u32 \<Rightarrow> u8" where
  "low_bytes f p [] = f"
| "low_bytes f p (w # ws) = low_bytes (f(p := byte_of 0 w)) (p + 4) ws"

lemma store_words_ok:
  assumes "guest_inv m" and "guest_range p (4 * (i + length ws))"
  shows "\<exists>m'. store_words p i ws m = (Ok (), m') \<and> guest_inv m' \<and>
           byte_at m' = low_bytes (byte_at m) (p + of_nat (4 * i)) ws"
  using assms
proof (induction ws arbitrary: i m)
  case (Cons w ws)
  let ?a = "p + of_nat (i * 4)"
  have rng: "unat p + i * 4 < 4294967296" "in_range ?a"
    using guest_range_offset [OF Cons.prems(2), of "i * 4"] by simp_all
  obtain m1 where 1: "write_mem ?a Byte w m = (Ok True, m1)" "guest_inv m1"
    "byte_at m1 = (byte_at m)(?a := ucast w)"
    using guest_store.wr_mapped [OF Cons.prems(1) rng(2)] by blast
  have "guest_range p (4 * (Suc i + length ws))" using Cons.prems(2) by simp
  from Cons.IH [OF 1(2) this] obtain m2 where
    2: "store_words p (Suc i) ws m1 = (Ok (), m2)" "guest_inv m2"
      "byte_at m2 = low_bytes (byte_at m1) (p + of_nat (4 * Suc i)) ws" by blast
  have "p + of_nat (4 * Suc i) = ?a + 4" by (simp add: ac_simps)
  then have "byte_at m2 = low_bytes (byte_at m) (p + of_nat (4 * i)) (w # ws)"
    unfolding 2(3) 1(3) by (simp add: byte_of_def ac_simps)
  moreover have "store_words p i (w # ws) m = (Ok (), m2)"
    using rng(1) by (simp add: bindM_run bindM_def [of "write_mem a Byte w" for a] 1(1) 2(1) del: of_nat_mult)
  ultimately show ?case using 2(2) by blast
qed (simp add: ret_def)

lemma low_bytes_other:
  assumes "\<forall>i < length ws. a \<noteq> p + of_nat (4 * i)"
  shows "low_bytes f p ws a = f a"
  using assms
proof (induction f p ws rule: low_bytes.induct)
  case (2 f p w ws)
  have "\<forall>i < length ws. a \<noteq> p + 4 + of_nat (4 * i)"
  proof (intro allI impI)
    fix i assume "i < length ws"
    then have "a \<noteq> p + of_nat (4 * Suc i)" using spec [OF "2.prems", of "Suc i"] by simp
    then show "a \<noteq> p + 4 + of_nat (4 * i)" by (simp add: add.assoc)
  qed
  then have "low_bytes (f(p := byte_of 0 w)) (p + 4) ws a = (f(p := byte_of 0 w)) a" by (rule "2.IH")
  moreover have "a \<noteq> p" using spec [OF "2.prems", of 0] by simp
  ultimately show ?case by simp
qed simp

lemma low_bytes_gap:
  assumes "guest_range p 32" and "length ws = 8" and "k < 32" and "k mod 4 \<noteq> 0"
  shows "low_bytes f p ws (p + of_nat k) = f (p + of_nat k)"
proof (rule low_bytes_other, intro allI impI)
  fix i assume i: "i < length ws"
  have u: "unat (p + of_nat j) = unat p + j" if "j < 32" for j
    using assms(1) that by (simp add: guest_range_def cfg_simps unat_add32)
  have "unat (p + of_nat k) = unat p + k" "unat (p + of_nat (4 * i)) = unat p + 4 * i"
    using u [OF assms(3)] u [of "4 * i"] assms(2) i by simp_all
  then show "p + of_nat k \<noteq> p + of_nat (4 * i)" using assms(4) by auto
qed

lemma load_bigint_ok:
  assumes "guest_inv m" and "aligned Word p" and "guest_range p 32"
  shows "\<exists>m'. load_bigint_le_bytes p m = (Ok (load (byte_at m) p 32), m') \<and>
           guest_inv m' \<and> byte_at m' = byte_at m"
  using read_words_ok [OF assms(1,2), of 0 8 CannotReadBigInt] assms(3)
  by (auto simp: load_bigint_le_bytes_def bindM_def ret_def)

text \<open>One run of the ecall, by whether there is a result.\<close>

lemma ecall_bigint_run:
  fixes s :: Simulator and ext :: externs
  defines "f \<equiv> byte_at (mem s)" and "lib \<equiv> bigint ext" and "out \<equiv> reg REG_A0 s"
  defines "r \<equiv> bigint_result lib (from_le_bytes256 lib (load f (reg REG_A2 s) 32))
           (from_le_bytes256 lib (load f (reg REG_A3 s) 32))
           (from_le_bytes256 lib (load f (reg REG_A4 s) 32))"
  assumes "bigint_documented (bigint ext)" and "guest_inv (mem s)" and "reg REG_A1 s = 0"
    and "guest_range out 32"
    and "\<forall>i \<in> {REG_A2, REG_A3, REG_A4}. guest_range (reg i s) 32 \<and> aligned Word (reg i s)"
    and "unat (pc (hart_state s)) + 4 < 2 ^ 32"
  shows "r = None \<Longrightarrow> \<exists>m. ecall_bigint ext s = (Panic ExpectFailed, s\<lparr>mem := m\<rparr>)"
    and "r = Some z \<Longrightarrow> \<exists>m. ecall_bigint ext s = (Ok (pc (hart_state s) + 4, None, 9), s\<lparr>mem := m\<rparr>) \<and>
           byte_at m = low_bytes f out (bytes_to_words (to_le_bytes256 lib z))"
proof -
  have rng: "guest_range (reg i s) 32" "aligned Word (reg i s)" if "i \<in> {REG_A2, REG_A3, REG_A4}" for i
    using assms(9) that by auto
  obtain m1 where x: "load_bigint_le_bytes (reg REG_A2 s) (mem s) = (Ok (load f (reg REG_A2 s) 32), m1)"
    "guest_inv m1" "byte_at m1 = f"
    using load_bigint_ok [OF assms(6) rng(2,1) [of REG_A2]] by (auto simp: f_def)
  obtain m2 where y: "load_bigint_le_bytes (reg REG_A3 s) m1 = (Ok (load f (reg REG_A3 s) 32), m2)"
    "guest_inv m2" "byte_at m2 = f"
    using load_bigint_ok [OF x(2) rng(2,1) [of REG_A3]] x(3) by auto
  obtain m3 where n: "load_bigint_le_bytes (reg REG_A4 s) m2 = (Ok (load f (reg REG_A4 s) 32), m3)"
    "guest_inv m3" "byte_at m3 = f"
    using load_bigint_ok [OF y(2) rng(2,1) [of REG_A4]] y(3) by auto
  note run = ecall_bigint_def bindM_run bindM_def [of "lift_mem g" for g] lift_mem_def Let_def assms(7)
    x(1) y(1) n(1) lib_def out_def next_pc_def ret_def panicM_def
  show "\<exists>m. ecall_bigint ext s = (Panic ExpectFailed, s\<lparr>mem := m\<rparr>)" if "r = None"
    using that by (simp add: r_def run) (rule exI, rule refl)
  let ?ws = "bytes_to_words (to_le_bytes256 lib z)"
  have len: "length ?ws = 8" using assms(5) by (simp add: bigint_documented_def lib_def)
  obtain m4 where w: "store_words out 0 ?ws m3 = (Ok (), m4)" "byte_at m4 = low_bytes f out ?ws"
    using store_words_ok [OF n(2), of out 0 ?ws] assms(8) len n(3) by auto
  show "\<exists>m. ecall_bigint ext s = (Ok (pc (hart_state s) + 4, None, 9), s\<lparr>mem := m\<rparr>) \<and>
      byte_at m = low_bytes f out ?ws" if "r = Some z"
    using that w assms(10) by (intro exI [of _ m4]) (simp add: r_def run)
qed

lemma nth_bytes_to_words:
  "length bs = 4 * n \<Longrightarrow> i < n \<Longrightarrow> byte_of 0 (bytes_to_words bs ! i) = bs ! (4 * i)"
proof (induction n arbitrary: bs i)
  case (Suc n)
  then obtain a b c d cs where bs: "bs = a # b # c # d # cs" "length cs = 4 * n"
    by (auto simp: numeral_eq_Suc length_Suc_conv)
  with Suc show ?case by (cases i) (simp_all add: byte_of_from_le4)
qed simp

lemma low_bytes_at:
  assumes "unat p + 4 * length ws \<le> 2 ^ 32" and "i < length ws"
  shows "low_bytes f p ws (p + of_nat (4 * i)) = byte_of 0 (ws ! i)"
  using assms
proof (induction f p ws arbitrary: i rule: low_bytes.induct)
  case (2 f p w ws)
  show ?case
  proof (cases "ws = []")
    case True
    with "2.prems" show ?thesis by simp
  next
    case False
    then have "unat p + 4 < 2 ^ 32" using "2.prems"(1) by (cases ws) auto
    then have p4: "unat (p + 4) = unat p + 4" by (simp add: unat_add32)
    show ?thesis
    proof (cases i)
      case 0
      have "\<forall>j < length ws. p \<noteq> p + 4 + of_nat (4 * j)"
      proof (intro allI impI notI)
        fix j assume "j < length ws" and eq: "p = p + 4 + of_nat (4 * j)"
        then have "4 * j < 4294967296" "unat (p + 4) + 4 * j < 4294967296" using "2.prems"(1) p4 by simp_all
        then have "unat (p + 4 + of_nat (4 * j)) = unat (p + 4) + 4 * j"
          by (simp add: unat_add32 unat_of_nat del: of_nat_mult)
        then have "unat p = unat (p + 4) + 4 * j" by (simp only: eq [symmetric])
        with p4 show False by simp
      qed
      from low_bytes_other [OF this] 0 show ?thesis by simp
    next
      case (Suc j)
      with "2.IH" [of j] "2.prems" p4 show ?thesis by (simp add: add.assoc del: fun_upd_apply)
    qed
  qed
qed simp

text \<open>
  Property C16. The \<open>BIGINT\<close> ecall, called with operation 0, three aligned 32-byte operands and a
  32-byte result buffer in the guest's memory. With \<open>X\<close>, \<open>Y\<close> and \<open>N\<close> the numbers that the operands
  are in little-endian order, it panics exactly when \<open>N\<close> is zero and the product of \<open>X\<close> and \<open>Y\<close>
  has more than 256 bits. Otherwise it moves to the next instruction, changes no register and
  charges nine cycles, and the eight bytes that it stores, four apart, are the bytes 0, 4, 8 and so on of
  the product modulo \<open>N\<close>, or of the product itself when \<open>N\<close> is zero (C17 is about the bytes between them).
\<close>

theorem bigint_ecall_multiplies:
  fixes s :: Simulator and ext :: externs
  defines "f \<equiv> byte_at (mem s)" and "out \<equiv> reg REG_A0 s"
  defines "X \<equiv> nat_of_bytes (load f (reg REG_A2 s) 32)" and "Y \<equiv> nat_of_bytes (load f (reg REG_A3 s) 32)"
    and "N \<equiv> nat_of_bytes (load f (reg REG_A4 s) 32)"
  defines "Z \<equiv> if N = 0 then X * Y else X * Y mod N"
  assumes "bigint_documented (bigint ext)" and "bigint_byte_order (bigint ext)"
    and "guest_inv (mem s)" and "reg REG_T0 s = ECALL_BIGINT" and "reg REG_A1 s = 0"
    and "guest_range out 32"
    and "\<forall>i \<in> {REG_A2, REG_A3, REG_A4}. guest_range (reg i s) 32 \<and> aligned Word (reg i s)"
    and "unat (pc (hart_state s)) + 4 < 2 ^ 32"
  shows "if N = 0 \<and> 2 ^ 256 \<le> X * Y then \<exists>s'. ecall ext s = (Panic ExpectFailed, s')
     else \<exists>s'. ecall ext s = (Ok (pc (hart_state s) + 4, None, 9), s') \<and> hart_state s' = hart_state s \<and>
       (\<forall>i < 8. unat (byte_at (mem s') (out + of_nat (4 * i))) = Z div 256 ^ (4 * i) mod 256)"
proof -
  let ?lib = "bigint ext"
  let ?int = "\<lambda>i. from_le_bytes256 ?lib (load f (reg i s) 32)"
  let ?r = "bigint_result ?lib (?int REG_A2) (?int REG_A3) (?int REG_A4)"
  have ints: "unat (?int REG_A2) = X" "unat (?int REG_A3) = Y" "unat (?int REG_A4) = N"
    using assms(8) by (simp_all add: bigint_byte_order_def X_def Y_def N_def)
  have zero: "?int REG_A4 = 0 \<longleftrightarrow> N = 0" using ints(3) by (metis unat_eq_zero)
  note product = bigint_multiplies_modulo [OF assms(7), of "?int REG_A2" "?int REG_A3" "?int REG_A4", unfolded ints zero]
  note run = ecall_bigint_run [OF assms(7,9,11) assms(12) [unfolded out_def] assms(13,14), folded f_def out_def]
  have e: "ecall ext s = ecall_bigint ext s" using assms(10) by (simp add: ecall_unfold cfg_simps)
  show ?thesis
  proof (cases "N = 0 \<and> 2 ^ 256 \<le> X * Y")
    case True
    with product run(1) show ?thesis unfolding e by auto
  next
    case False
    have "Z < 2 ^ 256"
    proof (cases "N = 0")
      case False
      then have "Z < N" by (simp add: Z_def)
      with unat_256 [of "?int REG_A4"] ints(3) show ?thesis by simp
    qed (use False in \<open>simp add: Z_def\<close>)
    then have uz: "unat (word_of_nat Z :: 256 word) = Z" by (simp only: unat_of_nat) simp
    have prod: "word_of_nat (X * Y) = ?int REG_A2 * ?int REG_A3" by (simp flip: ints)
    have "?r = Some (word_of_nat Z)" using product False prod by (cases "N = 0") (simp_all add: Z_def not_le)
    from run(2) [OF this] obtain m where m: "ecall_bigint ext s = (Ok (pc (hart_state s) + 4, None, 9), s\<lparr>mem := m\<rparr>)"
      "byte_at m = low_bytes f out (bytes_to_words (to_le_bytes256 ?lib (word_of_nat Z)))" by blast
    have len: "length (to_le_bytes256 ?lib x) = 4 * 8" for x using assms(7) by (simp add: bigint_documented_def)
    have "unat (byte_at m (out + of_nat (4 * i))) = Z div 256 ^ (4 * i) mod 256" if "i < 8" for i
    proof -
      have "byte_at m (out + of_nat (4 * i)) = to_le_bytes256 ?lib (word_of_nat Z) ! (4 * i)"
        unfolding m(2) using that assms(12) len
        by (subst low_bytes_at) (simp_all add: guest_range_def cfg_simps nth_bytes_to_words [OF len])
      then show ?thesis using assms(8) that uz by (simp add: bigint_byte_order_def)
    qed
    with False m(1) show ?thesis unfolding e by (auto intro!: exI [of _ "s\<lparr>mem := m\<rparr>"])
  qed
qed

text \<open>
  Property C17 (a flaw). A \<open>BIGINT\<close> ecall that succeeds stores only the lowest byte of each of the
  eight words of its result: the other 24 bytes of the result buffer keep what they held.
\<close>

theorem bigint_ecall_stores_low_bytes:
  fixes s :: Simulator and ext :: externs
  defines "f \<equiv> byte_at (mem s)" and "lib \<equiv> bigint ext" and "out \<equiv> reg REG_A0 s"
  assumes "bigint_documented (bigint ext)" and "guest_inv (mem s)" and "reg REG_A1 s = 0"
    and "guest_range out 32"
    and "\<forall>i \<in> {REG_A2, REG_A3, REG_A4}. guest_range (reg i s) 32 \<and> aligned Word (reg i s)"
    and "bigint_result lib (from_le_bytes256 lib (load f (reg REG_A2 s) 32))
           (from_le_bytes256 lib (load f (reg REG_A3 s) 32))
           (from_le_bytes256 lib (load f (reg REG_A4 s) 32)) = Some z"
    and "unat (pc (hart_state s)) + 4 < 2 ^ 32"
  shows "\<exists>s'. ecall_bigint ext s = (Ok (pc (hart_state s) + 4, None, 9), s') \<and>
           byte_at (mem s') = low_bytes f out (bytes_to_words (to_le_bytes256 lib z)) \<and>
           (\<forall>k < 32. k mod 4 \<noteq> 0 \<longrightarrow> byte_at (mem s') (out + of_nat k) = f (out + of_nat k))"
proof -
  have len: "length (bytes_to_words (to_le_bytes256 lib z)) = 8"
    using assms(4) by (simp add: bigint_documented_def lib_def)
  from ecall_bigint_run(2) [OF assms(4-6) assms(7) [unfolded out_def] assms(8,10) assms(9) [unfolded f_def lib_def]]
  obtain m where "ecall_bigint ext s = (Ok (pc (hart_state s) + 4, None, 9), s\<lparr>mem := m\<rparr>)"
    "byte_at m = low_bytes f out (bytes_to_words (to_le_bytes256 lib z))"
    unfolding f_def lib_def out_def by blast
  with low_bytes_gap [OF assms(7) len] show ?thesis
    by (intro exI [of _ "s\<lparr>mem := m\<rparr>"]) simp
qed

end
