(* ===== verification/Guest_IO.thy ===== *)
theory Guest_IO
  imports Ecall
begin

text \<open>
  Input and output as the guest sees them: the \<open>SOFTWARE\<close> ecall from the name of the system call
  in the guest's memory, through \<open>handle_syscall\<close>, to the result buffer and registers.
\<close>

section \<open>A software call, from the name to the result buffer\<close>

text \<open>The bytes at \<open>ptr\<close> are the zero-terminated string \<open>bs\<close>.\<close>

definition holds_string :: "(u32 \<Rightarrow> u8) \<Rightarrow> u32 \<Rightarrow> u8 list \<Rightarrow> bool" where
  "holds_string f ptr bs \<longleftrightarrow> guest_range ptr (length bs + 1) \<and> 0 \<notin> set bs \<and>
     load f ptr (length bs + 1) = bs @ [0]"

lemma holds_string_bytes:
  assumes "holds_string f ptr bs"
  shows "\<forall>k < length bs. f (ptr + of_nat k) \<noteq> 0" and "f (ptr + of_nat (length bs)) = 0"
    and "load f ptr (length bs) = bs"
proof -
  have l: "load f ptr (length bs + 1) = bs @ [0]" using assms by (simp add: holds_string_def)
  have nth: "f (ptr + of_nat k) = (bs @ [0]) ! k" if "k < length bs + 1" for k
    using that arg_cong [OF l, of "\<lambda>xs. xs ! k"] by (simp add: load_def del: upt_Suc)
  show "f (ptr + of_nat (length bs)) = 0" using nth [of "length bs"] by simp
  show "\<forall>k < length bs. f (ptr + of_nat k) \<noteq> 0"
  proof (intro allI impI)
    fix k assume "k < length bs"
    with nth [of k] assms show "f (ptr + of_nat k) \<noteq> 0"
      by (metis holds_string_def less_SucI nth_append nth_mem Suc_eq_plus1)
  qed
  show "load f ptr (length bs) = bs"
    using nth by (intro nth_equalityI) (simp_all add: load_def nth_append)
qed

lemma software_call:
  assumes inv: "guest_inv (mem s)" and t0: "reg REG_T0 s = ECALL_SOFTWARE"
    and name: "holds_string (byte_at (mem s)) (reg REG_A2 s) name" "valid_utf8 name"
    and dest: "reg REG_A0 s \<noteq> 0 \<Longrightarrow> guest_range (reg REG_A0 s) (4 * unat (reg REG_A1 s)) \<and> in_range (reg REG_A0 s)"
    and pc: "unat (pc (hart_state s)) + 4 < 2 ^ 32"
    and call: "\<And>m. same_frame (mem s) m \<Longrightarrow> guest_inv m \<Longrightarrow> byte_at m = byte_at (mem s) \<Longrightarrow>
      \<exists>words t. handle_syscall ext name (replicate (unat (reg REG_A1 s)) 0) (s\<lparr>mem := m\<rparr>) = (Ok (words, None), t) \<and>
        length words = unat (reg REG_A1 s) \<and> guest_inv (mem t) \<and> byte_at (mem t) = byte_at (mem s) \<and>
        pc (hart_state t) = pc (hart_state s) \<and> Q words t"
  shows "\<exists>words t m. ecall ext s =
      (Ok (pc (hart_state s) + 4, None, 2 + 4 * ((unat (reg REG_A1 s) + 3) div 4)), t\<lparr>mem := m\<rparr>) \<and>
     Q words t \<and>
     byte_at m = (if reg REG_A0 s = 0 then byte_at (mem s)
                  else overlay (byte_at (mem s)) (reg REG_A0 s) (words_to_bytes words))"
proof -
  have "guest_range (reg REG_A2 s) (length name + 1)" using name(1) by (simp add: holds_string_def)
  from read_name_spec [OF inv this holds_string_bytes(1,2) [OF name(1)], of "[]"] holds_string_bytes(3) [OF name(1)]
  obtain m1 where m1: "read_name (reg REG_A2 s) [] (mem s) = (Ok name, m1)" "guest_inv m1"
    "byte_at m1 = byte_at (mem s)" by auto
  have "same_frame (mem s) m1" using read_name_frame [of "mem s" "reg REG_A2 s" "[]"] m1(1) by simp
  from call [OF this m1(2,3)] obtain words t where t:
    "handle_syscall ext name (replicate (unat (reg REG_A1 s)) 0) (s\<lparr>mem := m1\<rparr>) = (Ok (words, None), t)"
    "length words = unat (reg REG_A1 s)" "guest_inv (mem t)" "byte_at (mem t) = byte_at (mem s)"
    "pc (hart_state t) = pc (hart_state s)" "Q words t" by blast
  let ?wr = "if reg REG_A0 s \<noteq> 0
     then lift_mem (write_loop (\<lambda>a v. write_mem a Byte v) CannotWriteFinalHash (reg REG_A0 s) 0 (words_to_bytes words))
     else ret ()"
  have "length (words_to_bytes words) = 4 * unat (reg REG_A1 s)" using t(2) by simp
  then obtain m2 where m2: "?wr t = (Ok (), t\<lparr>mem := m2\<rparr>)"
    "byte_at m2 = (if reg REG_A0 s = 0 then byte_at (mem s)
       else overlay (byte_at (mem s)) (reg REG_A0 s) (words_to_bytes words))"
    using guest_store.write_loop_ok [OF t(3), of "reg REG_A0 s" 0 "words_to_bytes words" CannotWriteFinalHash]
      guest_range_mapped [OF conjunct1 [OF dest]] t(4) that [of "mem t"]
    by (cases "reg REG_A0 s = 0") (auto simp: ret_def lift_mem_def)
  have ok: "(out_of_range (reg REG_A0 s) \<and> reg REG_A0 s \<noteq> 0) = False"
    using dest by (auto simp: in_range_def)
  have "ecall_software ext s =
      (Ok (pc (hart_state s) + 4, None, 1 + unat (align_up (ucast (reg REG_A1 s)) 4) + 1), t\<lparr>mem := m2\<rparr>)"
    using pc t(5) m1(1) t(1) name(2)
    by (simp add: ok ecall_software_def bindM_run bindM_def [of "lift_mem f" for f] lift_mem_def Let_def
        from_utf8_def bindM_def [of "handle_syscall e a b" for e a b] bindM_def [of ?wr] m2(1) next_pc_def ret_def
        del: if_split)
  then show ?thesis
    using t0 t(6) m2(2) by (intro exI [of _ words] exI [of _ t] exI [of _ m2])
      (simp add: ecall_unfold cfg_simps align_up_4)
qed

lemma handle_named:
  "handle_syscall ext (sys_name ''SYS_READ'') tg = bindM (sys_read tg) (\<lambda>ws. ret (ws, None))"
  "handle_syscall ext (sys_name ''SYS_WRITE'') tg = bindM (sys_write tg) (\<lambda>ws. ret (ws, None))"
  by (simp_all add: handle_syscall_def sys_name_def ascii_def)

lemma valid_utf8_names: "valid_utf8 (sys_name ''SYS_READ'')" "valid_utf8 (sys_name ''SYS_WRITE'')"
  by (simp_all add: sys_name_def ascii_def valid_utf8.simps)

text \<open>The part of the call up to \<open>handle_syscall\<close>, whatever that returns.\<close>

lemma software_call_reaches:
  assumes inv: "guest_inv (mem s)" and t0: "reg REG_T0 s = ECALL_SOFTWARE"
    and name: "holds_string (byte_at (mem s)) (reg REG_A2 s) name" "valid_utf8 name"
    and dest: "reg REG_A0 s = 0 \<or> in_range (reg REG_A0 s)"
  shows "\<exists>m g. same_frame (mem s) m \<and> guest_inv m \<and> byte_at m = byte_at (mem s) \<and>
     ecall ext s = bindM (handle_syscall ext name (replicate (unat (reg REG_A1 s)) 0)) g (s\<lparr>mem := m\<rparr>)"
proof -
  have "guest_range (reg REG_A2 s) (length name + 1)" using name(1) by (simp add: holds_string_def)
  from read_name_spec [OF inv this holds_string_bytes(1,2) [OF name(1)], of "[]"] holds_string_bytes(3) [OF name(1)]
  obtain m1 where m1: "read_name (reg REG_A2 s) [] (mem s) = (Ok name, m1)" "guest_inv m1"
    "byte_at m1 = byte_at (mem s)" by auto
  have frame: "same_frame (mem s) m1" using read_name_frame [of "mem s" "reg REG_A2 s" "[]"] m1(1) by simp
  have ok: "(out_of_range (reg REG_A0 s) \<and> reg REG_A0 s \<noteq> 0) = False"
    using dest by (auto simp: in_range_def)
  have "\<exists>g. ecall_software ext s =
      bindM (handle_syscall ext name (replicate (unat (reg REG_A1 s)) 0)) g (s\<lparr>mem := m1\<rparr>)"
    using m1(1) name(2)
    by (simp add: ok ecall_software_def bindM_run bindM_def [of "lift_mem f" for f] lift_mem_def Let_def
        from_utf8_def del: if_split) (rule exI, rule refl)
  with frame m1 t0 show ?thesis by (auto simp: ecall_unfold cfg_simps)
qed

text \<open>When \<open>SYS_READ\<close> stops: the checks in the order in which it makes them.\<close>

lemma sys_read_stops:
  assumes wf: "sim_wf s" and avail: "avail = drop (position (stdin s)) (get_ref (stdin s))"
    and b: "b = unat (reg REG_A4 s)" "m = 4 * length to_guest"
  shows "m \<le> b \<Longrightarrow> reg REG_A3 s \<noteq> STDIN \<Longrightarrow> fst (sys_read to_guest s) = Err (BadReadFd (reg REG_A3 s))"
    and "b < m \<or> reg REG_A3 s = STDIN \<and> (m + 4 < b \<or> length avail < m) \<Longrightarrow>
      fst (sys_read to_guest s) = Panic AssertFailed"
proof -
  have c: "cursor_wf (stdin s)" using wf by (simp add: sim_wf_def)
  obtain bs c1 where r1: "cursor_read m (stdin s) = (bs, c1)" by fastforce
  then have bs: "length bs = min m (length avail)" using avail by (auto simp: cursor_read_def Let_def)
  note run = sys_read_def bindM_run read_all_cursor_read [OF c] mult.commute [of _ 4] b [symmetric] r1 Let_def
    throw_def
  show "m \<le> b \<Longrightarrow> reg REG_A3 s \<noteq> STDIN \<Longrightarrow> fst (sys_read to_guest s) = Err (BadReadFd (reg REG_A3 s))"
    by (simp add: run)
  show "fst (sys_read to_guest s) = Panic AssertFailed"
    if "b < m \<or> reg REG_A3 s = STDIN \<and> (m + 4 < b \<or> length avail < m)"
    using that bs by (auto simp: run)
qed

lemma guest_reads_enough:
  assumes wf: "sim_wf s" "watchpoints_fit (mem s)" and t0: "reg REG_T0 s = ECALL_SOFTWARE"
    and name: "holds_string (byte_at (mem s)) (reg REG_A2 s) (sys_name ''SYS_READ'')"
    and dest: "in_range (reg REG_A0 s)" "guest_range (reg REG_A0 s) (4 * k)" and k: "k = unat (reg REG_A1 s)"
    and pc: "unat (pc (hart_state s)) + 4 < 2 ^ 32" and fd: "reg REG_A3 s = STDIN"
    and nb: "4 * k \<le> unat (reg REG_A4 s)" "unat (reg REG_A4 s) \<le> 4 * k + 4"
    and avail: "avail = drop (position (stdin s)) (get_ref (stdin s))" "4 * k \<le> length avail"
    and n: "n = min (unat (reg REG_A4 s)) (length avail)"
  shows "\<exists>s'. ecall ext s = (Ok (pc (hart_state s) + 4, None, 2 + 4 * ((k + 3) div 4)), s') \<and>
     byte_at (mem s') = overlay (byte_at (mem s)) (reg REG_A0 s) (take (4 * k) avail) \<and>
     take (n - 4 * k) (to_le_bytes (reg REG_A1 s')) = drop (4 * k) (take n avail) \<and>
     reg REG_A0 s' = of_nat n \<and>
     drop (position (stdin s')) (get_ref (stdin s')) = drop n avail"
proof -
  let ?Q = "\<lambda>words t. words_to_bytes words @ take (n - 4 * k) (to_le_bytes (reg REG_A1 t)) = take n avail \<and>
     length words = k \<and> reg REG_A0 t = of_nat n \<and> drop (position (stdin t)) (get_ref (stdin t)) = drop n avail"
  have inv: "guest_inv (mem s)" using wf by (simp add: guest_inv_def sim_wf_def)
  have nz: "reg REG_A0 s \<noteq> 0" using dest(1) by (auto simp: in_range_def out_of_range_def cfg_simps)
  have call: "\<exists>words t. handle_syscall ext (sys_name ''SYS_READ'') (replicate (unat (reg REG_A1 s)) 0) (s\<lparr>mem := m\<rparr>) =
        (Ok (words, None), t) \<and> length words = unat (reg REG_A1 s) \<and> guest_inv (mem t) \<and>
        byte_at (mem t) = byte_at (mem s) \<and> pc (hart_state t) = pc (hart_state s) \<and> ?Q words t"
    if m: "same_frame (mem s) m" "guest_inv m" "byte_at m = byte_at (mem s)" for m
  proof -
    have regs: "reg i (s\<lparr>mem := m\<rparr>) = reg i s" for i by (simp add: reg_def)
    from sys_read_ok [OF sim_wf_frame [OF wf(1) m(1)], of "replicate (unat (reg REG_A1 s)) 0" avail n]
      fd nb avail n k m
    show ?thesis unfolding regs by (auto simp: handle_named bindM_def ret_def)
  qed
  obtain words t m where r: "ecall ext s =
      (Ok (pc (hart_state s) + 4, None, 2 + 4 * ((unat (reg REG_A1 s) + 3) div 4)), t\<lparr>mem := m\<rparr>)"
    "?Q words t" "byte_at m = (if reg REG_A0 s = 0 then byte_at (mem s)
       else overlay (byte_at (mem s)) (reg REG_A0 s) (words_to_bytes words))"
    using software_call [where Q = ?Q, OF inv t0 name valid_utf8_names(1) _ pc call] dest k by blast
  have "length (words_to_bytes words) = 4 * k" using r(2) by simp
  moreover have "take n avail = words_to_bytes words @ take (n - 4 * k) (to_le_bytes (reg REG_A1 t))"
    using r(2) by simp
  moreover have "4 * k \<le> n" using nb(1) avail(2) n by simp
  ultimately have "words_to_bytes words = take (4 * k) avail"
    "take (n - 4 * k) (to_le_bytes (reg REG_A1 t)) = drop (4 * k) (take n avail)"
    by (metis append_eq_conv_conj take_take min.absorb1, simp)
  moreover have "reg i (t\<lparr>mem := m\<rparr>) = reg i t" for i by (simp add: reg_def)
  ultimately show ?thesis
    using r nz k by (intro exI [of _ "t\<lparr>mem := m\<rparr>"]) simp
qed

text \<open>
  Property C5. Reading from the standard input, as the guest sees it. A program executes an
  \<open>ecall\<close> with the name of \<open>SYS_READ\<close> and a result buffer of \<open>k\<close> words in its memory. If it asks
  for as many bytes as fill the buffer and at most four more, and the input has enough for the
  buffer, it finds in the buffer the next bytes of the input, the last ones that do not fill a word
  in a register, and their number; nothing else in its memory has changed, and the input goes on
  after them. Otherwise the call stops the simulator: with the error for the file descriptor when
  the buffer is not larger than the request and the descriptor is not the standard input's, and
  else with a failed assertion, when it asks for fewer bytes than the buffer holds or more than four
  beyond it, or when the input has too few for the buffer. (The state satisfies the invariants, and
  the next program counter does not overflow.)
\<close>

theorem guest_reads_input:
  assumes wf: "sim_wf s" "watchpoints_fit (mem s)" and t0: "reg REG_T0 s = ECALL_SOFTWARE"
    and name: "holds_string (byte_at (mem s)) (reg REG_A2 s) (sys_name ''SYS_READ'')"
    and dest: "in_range (reg REG_A0 s)" "guest_range (reg REG_A0 s) (4 * k)" and k: "k = unat (reg REG_A1 s)"
    and pc: "unat (pc (hart_state s)) + 4 < 2 ^ 32"
    and nbytes: "nbytes = unat (reg REG_A4 s)"
    and avail: "avail = drop (position (stdin s)) (get_ref (stdin s))"
    and n: "n = min nbytes (length avail)"
  shows "if 4 * k \<le> nbytes \<and> reg REG_A3 s \<noteq> STDIN then
       \<exists>s'. ecall ext s = (Err (BadReadFd (reg REG_A3 s)), s')
     else if 4 * k \<le> nbytes \<and> nbytes \<le> 4 * k + 4 \<and> 4 * k \<le> length avail then
       \<exists>s'. ecall ext s = (Ok (pc (hart_state s) + 4, None, 2 + 4 * ((k + 3) div 4)), s') \<and>
         byte_at (mem s') = overlay (byte_at (mem s)) (reg REG_A0 s) (take (4 * k) avail) \<and>
         take (n - 4 * k) (to_le_bytes (reg REG_A1 s')) = drop (4 * k) (take n avail) \<and>
         reg REG_A0 s' = of_nat n \<and>
         drop (position (stdin s')) (get_ref (stdin s')) = drop n avail
     else \<exists>s'. ecall ext s = (Panic AssertFailed, s')"
proof (cases "4 * k \<le> nbytes \<and> nbytes \<le> 4 * k + 4 \<and> 4 * k \<le> length avail \<and> reg REG_A3 s = STDIN")
  case True
  with guest_reads_enough [OF wf t0 name dest k pc _ _ _ avail _ n [unfolded nbytes]] nbytes show ?thesis by auto
next
  case False
  have inv: "guest_inv (mem s)" using wf by (simp add: guest_inv_def sim_wf_def)
  from software_call_reaches [OF inv t0 name valid_utf8_names(1)] dest(1) obtain m g where
    m: "same_frame (mem s) m" and
    run: "ecall ext s = bindM (handle_syscall ext (sys_name ''SYS_READ'') (replicate k 0)) g (s\<lparr>mem := m\<rparr>)"
    unfolding k by blast
  let ?s = "s\<lparr>mem := m\<rparr>"
  have regs: "reg i ?s = reg i s" for i by (simp add: reg_def)
  have stop: "\<exists>s'. ecall ext s = (Err e, s')" if "fst (sys_read (replicate k 0) ?s) = Err e" for e
    using that unfolding run handle_named
    by (cases "sys_read (replicate k 0) ?s") (simp add: bindM_def)
  have panics: "\<exists>s'. ecall ext s = (Panic p, s')" if "fst (sys_read (replicate k 0) ?s) = Panic p" for p
    using that unfolding run handle_named
    by (cases "sys_read (replicate k 0) ?s") (simp add: bindM_def)
  note stops = sys_read_stops [OF sim_wf_frame [OF wf(1) m], of avail nbytes "4 * k" "replicate k 0", unfolded regs]
  show ?thesis
    using False stops avail nbytes stop panics by (auto simp: not_le)
qed

lemma words_to_bytes_zeros: "words_to_bytes (replicate k 0) = replicate (4 * k) 0"
  by (induction k) (simp_all add: to_le_bytes_def byte_of_def numeral_eq_Suc)

text \<open>
  Property C6. Writing, as the guest sees it. A program executes an \<open>ecall\<close> with the name of
  \<open>SYS_WRITE\<close>, the descriptor of the standard output, the standard error or the journal, and a
  range of its memory; it gives no result buffer, or one that lies in its memory. The bytes of the
  range are appended to the channel, and success is reported. Without a result buffer no byte of
  the memory changes; a result buffer of \<open>n\<close> words, of which the call has no use, is filled with
  zeros, and no other byte changes. (The state satisfies the invariants, and the next program
  counter does not overflow.)
\<close>

theorem guest_writes_output:
  assumes wf: "sim_wf s" "watchpoints_fit (mem s)" and t0: "reg REG_T0 s = ECALL_SOFTWARE"
    and name: "holds_string (byte_at (mem s)) (reg REG_A2 s) (sys_name ''SYS_WRITE'')"
    and dest: "reg REG_A0 s = 0 \<or> in_range (reg REG_A0 s) \<and> guest_range (reg REG_A0 s) (4 * unat (reg REG_A1 s))"
    and pc: "unat (pc (hart_state s)) + 4 < 2 ^ 32"
    and rng: "guest_range (reg REG_A4 s) (unat (reg REG_A5 s))"
    and ch: "get_write_fd (reg REG_A3 s) s = (Ok ch, s)"
  shows "\<exists>s'. ecall ext s = (Ok (pc (hart_state s) + 4, None, 2 + 4 * ((unat (reg REG_A1 s) + 3) div 4)), s') \<and>
     get_ref (get_channel ch s') = get_ref (get_channel ch s) @
       load (byte_at (mem s)) (reg REG_A4 s) (unat (reg REG_A5 s)) \<and>
     position (get_channel ch s') = position (get_channel ch s) \<and>
     byte_at (mem s') = (if reg REG_A0 s = 0 then byte_at (mem s)
       else overlay (byte_at (mem s)) (reg REG_A0 s) (replicate (4 * unat (reg REG_A1 s)) 0)) \<and>
     reg REG_A0 s' = 0 \<and> reg REG_A1 s' = 0"
proof -
  let ?Q = "\<lambda>words t. get_ref (get_channel ch t) = get_ref (get_channel ch s) @
       load (byte_at (mem s)) (reg REG_A4 s) (unat (reg REG_A5 s)) \<and>
     position (get_channel ch t) = position (get_channel ch s) \<and> reg REG_A0 t = 0 \<and> reg REG_A1 t = 0 \<and>
     words = replicate (unat (reg REG_A1 s)) 0"
  have inv: "guest_inv (mem s)" using wf by (simp add: guest_inv_def sim_wf_def)
  have fd: "get_write_fd (reg REG_A3 s) t = (Ok ch, t)" for t
    using ch by (auto simp: get_write_fd_def ret_def throw_def split: if_splits)
  have chan: "get_channel ch (u\<lparr>mem := m\<rparr>) = get_channel ch u" for u m by (cases ch) simp_all
  have call: "\<exists>words t. handle_syscall ext (sys_name ''SYS_WRITE'') (replicate (unat (reg REG_A1 s)) 0) (s\<lparr>mem := m\<rparr>) =
        (Ok (words, None), t) \<and> length words = unat (reg REG_A1 s) \<and> guest_inv (mem t) \<and>
        byte_at (mem t) = byte_at (mem s) \<and> pc (hart_state t) = pc (hart_state s) \<and> ?Q words t"
    if m: "same_frame (mem s) m" "guest_inv m" "byte_at m = byte_at (mem s)" for m
  proof -
    let ?s = "s\<lparr>mem := m\<rparr>"
    have regs: "reg i ?s = reg i s" for i by (simp add: reg_def)
    have "guest_range (reg REG_A4 ?s) (unat (reg REG_A5 ?s))" "get_write_fd (reg REG_A3 ?s) ?s = (Ok ch, ?s)"
      unfolding regs by (rule rng, rule fd)
    from sys_write_ok [OF sim_wf_frame [OF wf(1) m(1)] _ this, of "replicate (unat (reg REG_A1 s)) 0"] m
    show ?thesis unfolding regs chan by (auto simp: handle_named bindM_def ret_def guest_inv_def)
  qed
  obtain words t m where r: "ecall ext s =
      (Ok (pc (hart_state s) + 4, None, 2 + 4 * ((unat (reg REG_A1 s) + 3) div 4)), t\<lparr>mem := m\<rparr>)"
    "?Q words t" "byte_at m = (if reg REG_A0 s = 0 then byte_at (mem s)
       else overlay (byte_at (mem s)) (reg REG_A0 s) (words_to_bytes words))"
    using software_call [where Q = ?Q, OF inv t0 name valid_utf8_names(2) _ pc call] dest by blast
  have "reg i (t\<lparr>mem := m\<rparr>) = reg i t" for i by (simp add: reg_def)
  with r show ?thesis by (intro exI [of _ "t\<lparr>mem := m\<rparr>"]) (simp add: chan words_to_bytes_zeros)
qed

end
