(* ===== verification/Serializer_Types.thy ===== *)
theory Serializer_Types
  imports Serializer
begin

text \<open>
  The types of serde's data model. A value of a type always serializes, a type without sequences
  and choices takes a fixed number of words, and the words determine the value.
\<close>

section \<open>Types\<close>

text \<open>The variants of an enumeration are numbered by their position.\<close>

datatype ser_type =
    TBool | TI8 | TI16 | TI32 | TI64 | TI128 | TU8 | TU16 | TU32 | TU64 | TU128 | TF32 | TF64 | TChar
  | TStr | TBytes | TUnit | TUnitStruct
  | TOption ser_type
  | TNewtypeStruct ser_type
  | TSeq ser_type
  | TMap ser_type ser_type
  | TTuple "ser_type list"
  | TTupleStruct "ser_type list"
  | TStruct "ser_type list"
  | TEnum "variant_type list"
and variant_type = UnitV | NewtypeV ser_type | TupleV "ser_type list" | StructV "ser_type list"

definition variant_of :: "ser_type \<Rightarrow> u32 \<Rightarrow> variant_type option" where
  "variant_of T i =
     (case T of TEnum vars \<Rightarrow> if unat i < length vars then Some (vars ! unat i) else None | _ \<Rightarrow> None)"

lemma size_entry:
  "(k, v) \<in> set kvs \<Longrightarrow> size k \<le> size_list (size_prod size size) kvs"
  "(k, v) \<in> set kvs \<Longrightarrow> size v \<le> size_list (size_prod size size) kvs"
  by (auto dest!: size_list_member [where f = "size_prod size size"])

text \<open>A Rust value of a type announces its lengths, and they fit into a word.\<close>

function (sequential) has_type :: "ser_value \<Rightarrow> ser_type \<Rightarrow> bool" where
  "has_type (VBool b) T = (T = TBool)"
| "has_type (VI8 v) T = (T = TI8)"
| "has_type (VI16 v) T = (T = TI16)"
| "has_type (VI32 v) T = (T = TI32)"
| "has_type (VI64 v) T = (T = TI64)"
| "has_type (VI128 v) T = (T = TI128)"
| "has_type (VU8 v) T = (T = TU8)"
| "has_type (VU16 v) T = (T = TU16)"
| "has_type (VU32 v) T = (T = TU32)"
| "has_type (VU64 v) T = (T = TU64)"
| "has_type (VU128 v) T = (T = TU128)"
| "has_type (VF32 v) T = (T = TF32)"
| "has_type (VF64 v) T = (T = TF64)"
| "has_type (VChar v) T = (T = TChar)"
| "has_type (VStr bs) T = (T = TStr \<and> length bs < 2 ^ 32)"
| "has_type (VBytes bs) T = (T = TBytes \<and> length bs < 2 ^ 32)"
| "has_type VUnit T = (T = TUnit)"
| "has_type VUnitStruct T = (T = TUnitStruct)"
| "has_type VNone T = (case T of TOption T' \<Rightarrow> True | _ \<Rightarrow> False)"
| "has_type (VSome v) T = (case T of TOption T' \<Rightarrow> has_type v T' | _ \<Rightarrow> False)"
| "has_type (VNewtypeStruct v) T = (case T of TNewtypeStruct T' \<Rightarrow> has_type v T' | _ \<Rightarrow> False)"
| "has_type (VSeq len vs) T =
     (case T of
        TSeq T' \<Rightarrow> len = Some (length vs) \<and> length vs < 2 ^ 32 \<and> list_all (\<lambda>v. has_type v T') vs
      | _ \<Rightarrow> False)"
| "has_type (VMap len kvs) T =
     (case T of
        TMap K V \<Rightarrow> len = Some (length kvs) \<and> length kvs < 2 ^ 32 \<and>
          list_all (\<lambda>kv. has_type (fst kv) K \<and> has_type (snd kv) V) kvs
      | _ \<Rightarrow> False)"
| "has_type (VTuple vs) T = (case T of TTuple Ts \<Rightarrow> list_all2 has_type vs Ts | _ \<Rightarrow> False)"
| "has_type (VTupleStruct vs) T = (case T of TTupleStruct Ts \<Rightarrow> list_all2 has_type vs Ts | _ \<Rightarrow> False)"
| "has_type (VStruct vs) T = (case T of TStruct Ts \<Rightarrow> list_all2 has_type vs Ts | _ \<Rightarrow> False)"
| "has_type (VUnitVariant i) T = (variant_of T i = Some UnitV)"
| "has_type (VNewtypeVariant i v) T =
     (case variant_of T i of Some (NewtypeV T') \<Rightarrow> has_type v T' | _ \<Rightarrow> False)"
| "has_type (VTupleVariant i vs) T =
     (case variant_of T i of Some (TupleV Ts) \<Rightarrow> list_all2 has_type vs Ts | _ \<Rightarrow> False)"
| "has_type (VStructVariant i vs) T =
     (case variant_of T i of Some (StructV Ts) \<Rightarrow> list_all2 has_type vs Ts | _ \<Rightarrow> False)"
| "has_type (VDisplay s) T = False"
| "has_type (VByFormat h c) T = False"
  by pat_completeness auto
termination
  by (relation "measure (size \<circ> fst)")
    (auto simp: less_Suc_eq_le intro: size_list_member dest: size_entry)

text \<open>The number of words of a value, where the type tells.\<close>

primrec total_width :: "nat option list \<Rightarrow> nat option" where
  "total_width [] = Some 0"
| "total_width (w # ws) =
     (case w of None \<Rightarrow> None | Some n \<Rightarrow> map_option ((+) n) (total_width ws))"

fun type_width :: "ser_type \<Rightarrow> nat option" where
  "type_width TI64 = Some 2"
| "type_width TU64 = Some 2"
| "type_width TF64 = Some 2"
| "type_width TI128 = Some 4"
| "type_width TU128 = Some 4"
| "type_width TStr = None"
| "type_width TBytes = None"
| "type_width TUnit = Some 0"
| "type_width TUnitStruct = Some 0"
| "type_width (TOption T) = None"
| "type_width (TNewtypeStruct T) = type_width T"
| "type_width (TSeq T) = None"
| "type_width (TMap K V) = None"
| "type_width (TTuple Ts) = total_width (map type_width Ts)"
| "type_width (TTupleStruct Ts) = total_width (map type_width Ts)"
| "type_width (TStruct Ts) = total_width (map type_width Ts)"
| "type_width (TEnum vars) = None"
| "type_width T = Some 1"

section \<open>Typed values serialize\<close>

lemma no_fault_all: "foldr or_else fs None = None \<longleftrightarrow> (\<forall>f \<in> set fs. f = None)"
  by (induction fs) (auto simp: or_else_def split: option.split)

lemma list_all2_partner: "list_all2 P xs ys \<Longrightarrow> x \<in> set xs \<Longrightarrow> \<exists>y \<in> set ys. P x y"
  by (induction rule: list_all2_induct) auto

lemma all_no_fault:
  assumes "list_all2 has_type vs Ts" and "\<And>v T. v \<in> set vs \<Longrightarrow> T \<in> set Ts \<Longrightarrow> has_type v T \<Longrightarrow> fault v = None"
  shows "foldr or_else (map fault vs) None = None"
  using assms list_all2_partner [OF assms(1)] by (fastforce simp: no_fault_all)

lemma typed_no_fault: "has_type v T \<Longrightarrow> fault v = None"
proof (induction v T rule: has_type.induct)
  case (22 len vs T)
  then show ?case by (auto simp: len_fault_def no_fault_all list_all_iff split: ser_type.splits)
next
  case (23 len kvs T)
  then show ?case by (fastforce simp: len_fault_def no_fault_all list_all_iff split: ser_type.splits)
qed (auto split: ser_type.splits option.splits variant_type.splits intro!: all_no_fault)

lemma total_width_sum:
  assumes "list_all2 P vs Ts" and "total_width (map w Ts) = Some n"
    and "\<And>v T k. v \<in> set vs \<Longrightarrow> T \<in> set Ts \<Longrightarrow> P v T \<Longrightarrow> w T = Some k \<Longrightarrow> length (g v) = k"
  shows "length (concat (map g vs)) = n"
  using assms
proof (induction arbitrary: n rule: list_all2_induct)
  case (Cons v vs T Ts)
  from Cons.prems(1) obtain k m where k: "w T = Some k" "total_width (map w Ts) = Some m" "n = k + m"
    by (auto split: option.splits)
  have "length (concat (map g vs)) = m" by (rule Cons.IH [OF k(2)]) (rule Cons.prems(2); simp)
  moreover have "length (g v) = k" by (rule Cons.prems(2) [of v T]) (use Cons.hyps k(1) in simp_all)
  ultimately show ?case using k(3) by simp
qed simp

lemma typed_width: "has_type v T \<Longrightarrow> type_width T = Some n \<Longrightarrow> length (encode v) = n"
proof (induction v T arbitrary: n rule: has_type.induct)
  case (24 vs T)
  then show ?case by (auto split: ser_type.splits intro: total_width_sum)
next
  case (25 vs T)
  then show ?case by (auto split: ser_type.splits intro: total_width_sum)
next
  case (26 vs T)
  then show ?case by (auto split: ser_type.splits intro: total_width_sum)
qed (auto simp: length_pad_words le_bytes128_def variant_of_def split: ser_type.splits option.splits variant_type.splits)

section \<open>Values of one type\<close>

lemma same_types_list:
  assumes "\<And>v w. v \<in> set vs \<Longrightarrow> w \<in> set ws \<Longrightarrow> same_type v w"
  shows "same_types vs ws"
  using assms by (induction vs ws rule: list_induct2') (auto intro: same_type_same_types_same_entries.intros)

lemma same_entries_list:
  assumes "\<And>a b. a \<in> set kvs \<Longrightarrow> b \<in> set kws \<Longrightarrow> same_type (fst a) (fst b) \<and> same_type (snd a) (snd b)"
  shows "same_entries kvs kws"
  using assms
proof (induction kvs kws rule: list_induct2')
  case (4 a kvs b kws)
  have "same_entries kvs kws" by (rule "4.IH") (use "4.prems" in simp)
  with "4.prems" [of a b] show ?case
    by (cases a; cases b) (auto intro: same_type_same_types_same_entries.intros)
qed (auto intro: same_type_same_types_same_entries.intros)

lemma same_types_zip:
  assumes "list_all2 P vs Ts" and "list_all2 P ws Ts"
    and "\<And>v w T. v \<in> set vs \<Longrightarrow> w \<in> set ws \<Longrightarrow> T \<in> set Ts \<Longrightarrow> P v T \<Longrightarrow> P w T \<Longrightarrow> same_type v w"
  shows "same_types vs ws" and "length vs = length ws"
proof -
  show "length vs = length ws" using assms(1,2) by (auto dest!: list_all2_lengthD)
  show "same_types vs ws" using assms
  proof (induction arbitrary: ws rule: list_all2_induct)
    case (Cons v vs T Ts)
    then obtain w ws' where w: "ws = w # ws'" "P w T" "list_all2 P ws' Ts" by (auto simp: list_all2_Cons2)
    have "same_types vs ws'" by (rule Cons.IH [OF w(3)]) (rule Cons.prems(2); simp add: w)
    moreover have "same_type v w" by (rule Cons.prems(2) [of v w T]) (use Cons.hyps w in simp_all)
    ultimately show ?case unfolding w(1) by (auto intro: same_type_same_types_same_entries.intros)
  qed (auto intro: same_type_same_types_same_entries.intros)
qed

text \<open>The values of a type, by its form.\<close>

lemma value_of_type:
  "has_type w TBool \<longleftrightarrow> (\<exists>b. w = VBool b)"
  "has_type w TI8 \<longleftrightarrow> (\<exists>x. w = VI8 x)" "has_type w TI16 \<longleftrightarrow> (\<exists>x. w = VI16 x)"
  "has_type w TI32 \<longleftrightarrow> (\<exists>x. w = VI32 x)" "has_type w TI64 \<longleftrightarrow> (\<exists>x. w = VI64 x)"
  "has_type w TI128 \<longleftrightarrow> (\<exists>x. w = VI128 x)"
  "has_type w TU8 \<longleftrightarrow> (\<exists>x. w = VU8 x)" "has_type w TU16 \<longleftrightarrow> (\<exists>x. w = VU16 x)"
  "has_type w TU32 \<longleftrightarrow> (\<exists>x. w = VU32 x)" "has_type w TU64 \<longleftrightarrow> (\<exists>x. w = VU64 x)"
  "has_type w TU128 \<longleftrightarrow> (\<exists>x. w = VU128 x)"
  "has_type w TF32 \<longleftrightarrow> (\<exists>x. w = VF32 x)" "has_type w TF64 \<longleftrightarrow> (\<exists>x. w = VF64 x)"
  "has_type w TChar \<longleftrightarrow> (\<exists>x. w = VChar x)"
  "has_type w TStr \<longleftrightarrow> (\<exists>bs. w = VStr bs \<and> length bs < 2 ^ 32)"
  "has_type w TBytes \<longleftrightarrow> (\<exists>bs. w = VBytes bs \<and> length bs < 2 ^ 32)"
  "has_type w TUnit \<longleftrightarrow> w = VUnit" "has_type w TUnitStruct \<longleftrightarrow> w = VUnitStruct"
  "has_type w (TOption T) \<longleftrightarrow> w = VNone \<or> (\<exists>v. w = VSome v \<and> has_type v T)"
  "has_type w (TNewtypeStruct T) \<longleftrightarrow> (\<exists>v. w = VNewtypeStruct v \<and> has_type v T)"
  "has_type w (TSeq T) \<longleftrightarrow>
     (\<exists>vs. w = VSeq (Some (length vs)) vs \<and> length vs < 2 ^ 32 \<and> list_all (\<lambda>v. has_type v T) vs)"
  "has_type w (TMap K V) \<longleftrightarrow>
     (\<exists>kvs. w = VMap (Some (length kvs)) kvs \<and> length kvs < 2 ^ 32 \<and>
        list_all (\<lambda>kv. has_type (fst kv) K \<and> has_type (snd kv) V) kvs)"
  "has_type w (TTuple Ts) \<longleftrightarrow> (\<exists>vs. w = VTuple vs \<and> list_all2 has_type vs Ts)"
  "has_type w (TTupleStruct Ts) \<longleftrightarrow> (\<exists>vs. w = VTupleStruct vs \<and> list_all2 has_type vs Ts)"
  "has_type w (TStruct Ts) \<longleftrightarrow> (\<exists>vs. w = VStruct vs \<and> list_all2 has_type vs Ts)"
  by (cases w; auto simp: variant_of_def)+

lemma value_of_variant:
  assumes "variant_of T i = Some k" and "has_type w T"
  shows "\<exists>j. variant_tag w = Some j \<and> (j = i \<longrightarrow>
     (case k of UnitV \<Rightarrow> w = VUnitVariant i
      | NewtypeV T' \<Rightarrow> \<exists>v. w = VNewtypeVariant i v \<and> has_type v T'
      | TupleV Ts \<Rightarrow> \<exists>vs. w = VTupleVariant i vs \<and> list_all2 has_type vs Ts
      | StructV Ts \<Rightarrow> \<exists>vs. w = VStructVariant i vs \<and> list_all2 has_type vs Ts))"
proof -
  from assms(1) obtain vars where T: "T = TEnum vars" by (auto simp: variant_of_def split: ser_type.splits)
  show ?thesis
    using assms unfolding T by (cases w) (auto split: option.splits variant_type.splits)
qed

lemmas same_type_forms = same_type_same_types_same_entries.intros(1-22,24-)

lemma same_type_variants:
  assumes "variant_tag v = Some i" and "variant_tag w = Some j" and "j = i \<Longrightarrow> same_type v w"
  shows "same_type v w"
  using assms by (cases "j = i") (auto intro: same_type_same_types_same_entries.intros(23))

lemma same_type_of: "has_type v T \<Longrightarrow> has_type w T \<Longrightarrow> same_type v w"
proof (induction v T arbitrary: w rule: has_type.induct)
  case (22 len vs T)
  then show ?case
    by (auto simp: value_of_type list_all_iff split: ser_type.splits intro!: same_type_forms same_types_list)
next
  case (23 len kvs T)
  then show ?case
    by (auto simp: value_of_type list_all_iff split: ser_type.splits intro!: same_type_forms same_entries_list)
      (metis fst_conv snd_conv)+
next
  case (27 i T)
  from value_of_variant [of T i UnitV w] "27.prems" obtain j where
    "variant_tag w = Some j" "j = i \<longrightarrow> w = VUnitVariant i" by auto
  note w = this
  have "same_type (VUnitVariant i) w" if "j = i"
    using w(2) that same_type_same_types_same_entries.intros(24) by blast
  then show ?case by (rule same_type_variants [OF _ w(1), rotated]) simp_all
next
  case (28 i v T)
  from "28.prems"(1) obtain T' where T': "variant_of T i = Some (NewtypeV T')" "has_type v T'"
    by (auto split: option.splits variant_type.splits)
  from value_of_variant [OF T'(1) "28.prems"(2)] obtain j where
    "variant_tag w = Some j" "j = i \<longrightarrow> (\<exists>v. w = VNewtypeVariant i v \<and> has_type v T')" by auto
  note w = this
  have "same_type (VNewtypeVariant i v) w" if "j = i"
    using w(2) that "28.IH" [OF T'(1) refl T'(2)] same_type_same_types_same_entries.intros(26) by blast
  then show ?case by (rule same_type_variants [OF _ w(1), rotated]) simp_all
next
  case (29 i vs T)
  from "29.prems"(1) obtain Ts where Ts: "variant_of T i = Some (TupleV Ts)" "list_all2 has_type vs Ts"
    by (auto split: option.splits variant_type.splits)
  from value_of_variant [OF Ts(1) "29.prems"(2)] obtain j where
    "variant_tag w = Some j" "j = i \<longrightarrow> (\<exists>vs. w = VTupleVariant i vs \<and> list_all2 has_type vs Ts)" by auto
  note w = this
  have "same_type (VTupleVariant i vs) w" if ij: "j = i"
  proof -
    from w(2) ij obtain ws where ws: "w = VTupleVariant i ws" "list_all2 has_type ws Ts" by blast
    have "same_type v x" if "v \<in> set vs" "has_type v S" "has_type x S" "S \<in> set Ts" for v x S
      using "29.IH" [OF Ts(1) refl] that by blast
    from same_types_zip [OF Ts(2) ws(2) this] show ?thesis
      unfolding ws(1) by (intro same_type_same_types_same_entries.intros(30))
  qed
  then show ?case by (rule same_type_variants [OF _ w(1), rotated]) simp_all
next
  case (30 i vs T)
  from "30.prems"(1) obtain Ts where Ts: "variant_of T i = Some (StructV Ts)" "list_all2 has_type vs Ts"
    by (auto split: option.splits variant_type.splits)
  from value_of_variant [OF Ts(1) "30.prems"(2)] obtain j where
    "variant_tag w = Some j" "j = i \<longrightarrow> (\<exists>vs. w = VStructVariant i vs \<and> list_all2 has_type vs Ts)" by auto
  note w = this
  have "same_type (VStructVariant i vs) w" if ij: "j = i"
  proof -
    from w(2) ij obtain ws where ws: "w = VStructVariant i ws" "list_all2 has_type ws Ts" by blast
    have "same_type v x" if "v \<in> set vs" "has_type v S" "has_type x S" "S \<in> set Ts" for v x S
      using "30.IH" [OF Ts(1) refl] that by blast
    from same_types_zip [OF Ts(2) ws(2) this] show ?thesis
      unfolding ws(1) by (intro same_type_same_types_same_entries.intros(33))
  qed
  then show ?case by (rule same_type_variants [OF _ w(1), rotated]) simp_all
qed (auto simp: value_of_type split: ser_type.splits intro!: same_type_forms same_types_zip)

section \<open>Properties\<close>

text \<open>
  Property C18. A value of a type always serializes: no error and no panic; and where the type has
  neither sequences, strings, options nor enumerations, it tells the number of words.
\<close>

theorem typed_values_serialize:
  assumes "has_type v T"
  shows "\<exists>words. to_vec v = Ok words \<and> (\<forall>n. type_width T = Some n \<longrightarrow> length words = n)"
  using typed_no_fault [OF assms] typed_width [OF assms] by (simp add: to_vec_spec)

text \<open>
  Property C19. Two values of one type with the same encoding, whatever follows it in the stream,
  are the same value: nothing is lost, and no encoding is a prefix of another.
\<close>

theorem encoding_determines_value:
  assumes "has_type v T" and "has_type w T" and "to_vec v = Ok vs" and "to_vec w = Ok ws" and "vs @ r = ws @ r'"
  shows "v = w \<and> r = r'"
  using same_type_encoding [OF same_type_of [OF assms(1,2)] assms(3-5)] .

end
