(* ===== verification/Demo.thy ===== *)
theory Demo
  imports Transparency Halting Accelerators Guest_IO Serializer_Types
begin

text \<open>
  Concrete instances for the examples: libraries that do what they document, a page of one
  instruction, simulators and debuggers over it, and how they step.
\<close>

section \<open>Instances of the library parameters\<close>

text \<open>Big integers as words, with the operations computed on their values.\<close>

definition demo_lib :: bigint_lib where
  "demo_lib =
     \<lparr>from_le_bytes256 = \<lambda>bs. foldr (\<lambda>b w. ucast b + 256 * w) bs 0,
      to_le_bytes256 = \<lambda>x. map (\<lambda>i. ucast (drop_bit (8 * i) x)) [0..<32],
      checked_mul256 = \<lambda>x y. if unat x * unat y < 2 ^ 256 then Some (x * y) else None,
      mul_wide256 = \<lambda>x y. (word_of_nat (unat x * unat y), word_of_nat (unat x * unat y div 2 ^ 256)),
      concat512 = \<lambda>hi lo. word_of_nat (unat hi * 2 ^ 256 + unat lo),
      rem512 = \<lambda>w n. w mod n,
      resize_up = ucast,
      resize_down = ucast\<rparr>"

lemma demo_lib_documented: "bigint_documented demo_lib"
proof -
  have "unat (word_of_nat (unat hi * 2 ^ 256 + unat lo) :: 512 word) = unat hi * 2 ^ 256 + unat lo"
    for hi lo :: "256 word"
  proof -
    have "unat hi * 2 ^ 256 + unat lo < (unat hi + 1) * 2 ^ 256" using unat_256 [of lo] by simp
    also have "\<dots> \<le> 2 ^ 256 * 2 ^ 256" using unat_256 [of hi] by (intro mult_le_mono1) simp
    finally have "unat hi * 2 ^ 256 + unat lo < 2 ^ 512" by simp
    then show ?thesis by (simp only: unat_of_nat) simp
  qed
  moreover have "unat (ucast x :: 512 word) = unat x" for x :: "256 word"
    using unat_256 [of x] by (simp add: unsigned_ucast_eq unsigned_take_bit_eq take_bit_nat_eq_self)
  moreover have "unat (ucast w :: 256 word) = unat w mod 2 ^ 256" for w :: "512 word"
    by (simp add: unsigned_ucast_eq unsigned_take_bit_eq take_bit_eq_mod)
  ultimately show ?thesis by (simp add: bigint_documented_def demo_lib_def unat_mod)
qed

lemma nat_of_bytes_less: "nat_of_bytes bs < 256 ^ length bs"
proof (induction bs)
  case (Cons b bs)
  have "unat b < 256" using unsigned_less [of b] by simp
  with Cons show ?case by simp
qed simp

lemma demo_lib_bytes:
  "length bs \<le> 32 \<Longrightarrow> unat (foldr (\<lambda>b w. ucast b + 256 * w) bs 0 :: 256 word) = nat_of_bytes bs"
proof (induction bs)
  case (Cons b bs)
  have "(256 :: nat) ^ length (b # bs) \<le> 256 ^ 32" using Cons.prems by (intro power_increasing) simp_all
  then have le: "nat_of_bytes (b # bs) < 2 ^ 256" using nat_of_bytes_less [of "b # bs"] by simp
  let ?w = "foldr (\<lambda>b w. ucast b + 256 * w) bs 0 :: 256 word"
  have b: "unat (ucast b :: 256 word) = unat b"
    using unsigned_less [of b, where 'a = nat] by (simp add: unsigned_ucast_eq take_bit_nat_eq_self)
  have "unat (ucast b + 256 * ?w) = (unat b + 256 * nat_of_bytes bs) mod 2 ^ 256"
    using Cons by (simp add: unat_word_ariths b mod_simps)
  with le show ?case by simp
qed simp

lemma demo_lib_byte_order: "bigint_byte_order demo_lib"
proof -
  have "unat (ucast (drop_bit (8 * k) x) :: u8) = unat x div 256 ^ k mod 256" for k and x :: "256 word"
  proof -
    have "unat (drop_bit (8 * k) x) = unat x div 2 ^ (8 * k)"
      using unat_256 [of x] by (simp only: unsigned_drop_bit_eq) (simp add: drop_bit_eq_div take_bit_nat_eq_self)
    then show ?thesis
      by (simp only: unsigned_ucast_eq) (simp add: unsigned_take_bit_eq take_bit_eq_mod power_mult)
  qed
  then show ?thesis
    by (simp add: bigint_byte_order_def demo_lib_def demo_lib_bytes del: foldr.simps)
qed

text \<open>
  An executor that only moves the program counter, by \<open>\<delta>\<close>; a compression function that keeps
  the state; a random source that answers.
\<close>

definition demo_externs :: "u32 \<Rightarrow> externs" where
  "demo_externs \<delta> =
     \<lparr>hashset_iter = sorted_list_of_set,
      exec_step = \<lambda>(h, m). (Ok (), (h\<lparr>pc := pc h + \<delta>\<rparr>, m)),
      compress256 = \<lambda>st block. st,
      random_ok = \<lambda>k. True,
      random_byte = \<lambda>k i. of_nat i,
      bigint = demo_lib\<rparr>"

lemma enumerates_sorted: "enumerates sorted_list_of_set"
  by (simp add: enumerates_def)

lemma demo_externs_documented [simp]: "externs_documented (demo_externs \<delta>)"
  by (auto simp: externs_documented_def exec_documented_def demo_externs_def enumerates_sorted
      intro: mem_reach.intros)

section \<open>A program\<close>

text \<open>One page of the same instruction, at the lowest address of the guest's memory.\<close>

definition demo_memory :: "u32 \<Rightarrow> Memory" where
  "demo_memory insn = \<lparr>page_map = [1 \<mapsto> replicate 256 insn], hw_watchpoints = [],
     watch_trigger = None, session_cycle_callback = Some default_scc\<rparr>"

definition demo_regs :: "(nat \<times> u32) list \<Rightarrow> u32 list" where
  "demo_regs rs = fold (\<lambda>(i, v) xs. xs[i := v]) rs (replicate 32 0)"

definition demo_sim :: "u32 \<Rightarrow> (nat \<times> u32) list \<Rightarrow> Simulator" where
  "demo_sim insn rs =
     \<lparr>mem = demo_memory insn, hart_state = \<lparr>registers = demo_regs rs, pc = 0x400\<rparr>, env = Map.empty,
      stdin = \<lparr>get_ref = map of_nat [0..<10], position = 0\<rparr>, stdout = default_cursor,
      stderr = default_cursor, journal = default_cursor, args = [], random_calls = 0\<rparr>"

definition demo_debugger :: "Simulator \<Rightarrow> ExecMode \<Rightarrow> u32 set \<Rightarrow> Debugger" where
  "demo_debugger s mode bps =
     \<lparr>elf = map of_nat [0..<20], simulator = s, exec_mode = mode, breakpoints = bps\<rparr>"

lemma length_demo_regs [simp]: "length (demo_regs rs) = 32"
proof -
  have "length (fold (\<lambda>(i, v) xs. xs[i := v]) rs xs) = length xs" for xs :: "u32 list"
    by (induction rs arbitrary: xs) auto
  then show ?thesis by (simp add: demo_regs_def)
qed

lemma demo_memory_inv [simp]:
  "guest_inv (demo_memory insn)" "mem_wf (demo_memory insn)" "watchpoints_fit (demo_memory insn)"
  by (simp_all add: guest_inv_def mem_wf_def watchpoints_fit_def demo_memory_def scc_wf_default)

lemma demo_memory_simps [simp]:
  "page_map (demo_memory insn) = [1 \<mapsto> replicate 256 insn]" "hw_watchpoints (demo_memory insn) = []"
  "watch_trigger (demo_memory insn) = None" "session_cycle_callback (demo_memory insn) = Some default_scc"
  by (simp_all add: demo_memory_def)

lemma demo_sim_simps [simp]:
  "mem (demo_sim insn rs) = demo_memory insn" "pc (hart_state (demo_sim insn rs)) = 0x400"
  "registers (hart_state (demo_sim insn rs)) = demo_regs rs"
  "get_ref (stdin (demo_sim insn rs)) = map of_nat [0..<10]" "position (stdin (demo_sim insn rs)) = 0"
  by (simp_all add: demo_sim_def)

lemma demo_sim_wf [simp]: "sim_wf (demo_sim insn rs)"
  by (simp add: sim_wf_def) (simp add: demo_sim_def cursor_wf_def default_cursor_def)

lemma demo_debugger_simps [simp]:
  "simulator (demo_debugger s mode bps) = s" "exec_mode (demo_debugger s mode bps) = mode"
  "breakpoints (demo_debugger s mode bps) = bps" "elf (demo_debugger s mode bps) = map of_nat [0..<20]"
  by (simp_all add: demo_debugger_def)

section \<open>Its steps\<close>

text \<open>
  A state in which the whole of page 1 holds one instruction, no watchpoint is set, and no page is
  marked; the program counter is in that page.
\<close>

definition demo_ok :: "u32 \<Rightarrow> Simulator \<Rightarrow> bool" where
  "demo_ok insn s \<longleftrightarrow> sim_wf s \<and> hw_watchpoints (mem s) = [] \<and>
     page_map (mem s) 1 = Some (replicate 256 insn) \<and> drop_bit 10 (pc (hart_state s)) = 1 \<and>
     cur_step_read (the (session_cycle_callback (mem s))) = {} \<and>
     cur_step_write (the (session_cycle_callback (mem s))) = {}"

lemma demo_ok_sim [simp]: "demo_ok insn (demo_sim insn rs)"
  by (simp add: demo_ok_def default_scc_def drop_bit_eq_div)

lemma demo_ok_page: "drop_bit 10 (p :: u32) = 1 \<Longrightarrow> \<not> out_of_range p"
proof -
  assume "drop_bit 10 p = 1"
  then have "unat p div 1024 = 1" using unat_shr10 [of p] by simp
  then have "unat p = 1024 + unat p mod 1024" using div_mult_mod_eq [of "unat p" 1024] by simp
  moreover have "unat p mod 1024 < 1024" by simp
  ultimately show ?thesis unfolding out_of_range_def guest_mem_consts by linarith
qed

lemma trigger_after_none: "hw_watchpoints m = [] \<Longrightarrow> trigger_after m a l w = watch_trigger m"
  by (simp add: trigger_after_def split: option.split)

lemma demo_fetch:
  assumes "demo_ok insn s"
  shows "read_mem (pc (hart_state s)) Word (mem s) =
    (Ok (Some insn), (mem s)\<lparr>session_cycle_callback :=
       Some (callback_read_mem 1 (the (session_cycle_callback (mem s))))\<rparr>)"
proof -
  from assms have pg: "page_map (mem s) 1 = Some (replicate 256 insn)" "drop_bit 10 (pc (hart_state s)) = 1"
    and wf: "mem_wf (mem s)" "watchpoints_fit (mem s)" and wp: "hw_watchpoints (mem s) = []"
    and c: "session_cycle_callback (mem s) \<noteq> None"
    by (auto simp: demo_ok_def sim_wf_def watchpoints_fit_def)
  have "word_at (mem s) 1 (page_offset_of (pc (hart_state s)) div 4) = insn"
    by (simp add: word_at_def pg)
  with read_mem_spec [of "mem s" False "pc (hart_state s)" Word] wf demo_ok_page [OF pg(2)] pg c wp show ?thesis
    by (auto simp: read_mem_def touch_def run_callback_def ensure_page_def access_trigger_def trigger_after_none)
qed

lemma demo_step:
  assumes "demo_ok insn s" and "get_opcode_cycle insn = Inr oc" and "\<not> is_ecall insn" and "oc \<le> 2"
    and "drop_bit 10 (pc (hart_state s) + \<delta>) = 1"
  shows "\<exists>s'. step (demo_externs \<delta>) s = (Ok None, s') \<and> demo_ok insn s' \<and>
           pc (hart_state s') = pc (hart_state s) + \<delta>"
proof -
  from assms(1) obtain c where c: "session_cycle_callback (mem s) = Some c" "scc_wf c"
    "cur_step_read c = {}" "cur_step_write c = {}"
    by (auto simp: demo_ok_def sim_wf_def mem_wf_def)
  have cr: "scc_wf (callback_read_mem 1 c)" by (rule scc_wf_callback_mem) (simp_all add: c)
  have "enumerates (hashset_iter (demo_externs \<delta>))" by (simp add: demo_externs_def enumerates_sorted)
  from charge_returns [OF this cr, of oc 0] c(3,4) assms(4) obtain c' where
    c': "callback_step (hashset_iter (demo_externs \<delta>)) oc 0 (callback_read_mem 1 c) = (Ok (), c')"
      "scc_wf c'" "cur_step_read c' = {}" "cur_step_write c' = {}"
    by (auto simp: callback_read_mem_def)
  have ex: "exec_step (demo_externs \<delta>) (h, m) = (Ok (), (h\<lparr>pc := pc h + \<delta>\<rparr>, m))" for h m
    by (simp add: demo_externs_def)
  let ?h = "(hart_state s)\<lparr>pc := pc (hart_state s) + \<delta>\<rparr>"
  let ?m = "(mem s)\<lparr>session_cycle_callback := Some c', watch_trigger := None\<rparr>"
  have "step (demo_externs \<delta>) s = (Ok None, s\<lparr>hart_state := ?h, mem := ?m\<rparr>)"
    using demo_fetch [OF assms(1)] c(1) c'(1) assms(2,3)
    by (simp add: step_def bindM_run bindM_def [of "lift_mem f" for f] lift_mem_def clear_trigger_def
        bindM_def [of "run_exec e" for e] run_exec_def bindM_def [of "lift_cycle f" for f]
        count_step_def lift_cycle_def Let_def ret_def ex)
  moreover have "demo_ok insn (s\<lparr>hart_state := ?h, mem := ?m\<rparr>)"
    using assms(1,5) c' by (auto simp: demo_ok_def sim_wf_def mem_wf_def)
  ultimately show ?thesis by (intro exI [of _ "s\<lparr>hart_state := ?h, mem := ?m\<rparr>"]) simp
qed

text \<open>The executor treats every memory alike.\<close>

lemma demo_libraries [simp]: "program_libraries (demo_externs \<delta>)"
proof -
  have "exec_generic (exec_step (demo_externs \<delta>))"
    by (auto simp: exec_generic_def oblivious_def demo_externs_def rel_prod_sel)
  then show ?thesis by (simp add: program_libraries_def)
qed

text \<open>A network on which a client connects.\<close>

definition demo_net :: net where
  "demo_net = \<lparr>tcp_bind = \<lambda>port. port = 9000, tcp_accept = \<lambda>port. Some ''client''\<rparr>"

lemma demo_net [simp]: "connects demo_net"
  by (simp add: connects_def demo_net_def)

section \<open>System calls in memory\<close>

text \<open>A page with the name of a system call in it.\<close>

lemma demo_string:
  assumes "length name < 256" and "0 \<notin> set name"
  shows "\<exists>m. same_frame (demo_memory 0) m \<and> guest_inv m \<and> holds_string (byte_at m) 0x500 name"
proof -
  let ?wr = "write_loop (\<lambda>a v. write_mem a Byte v) CannotWriteFinalHash 0x500 0 (name @ [0]) (demo_memory 0)"
  have r: "guest_range 0x500 (length name + 1)" using assms(1) by (simp add: guest_range_def cfg_simps)
  from guest_store.write_loop_ok [of "demo_memory 0" "0x500" 0 "name @ [0]" CannotWriteFinalHash]
    guest_range_mapped [OF r]
  obtain m where m: "?wr = (Ok (), m)" "guest_inv m" "byte_at m = overlay (byte_at (demo_memory 0)) 0x500 (name @ [0])"
    by auto
  have "load (byte_at m) 0x500 (length (name @ [0])) = name @ [0]"
    unfolding m(3) by (rule load_overlay) (use assms(1) in simp)
  with r assms(2) have "holds_string (byte_at m) 0x500 name" by (simp add: holds_string_def)
  moreover have "same_frame (demo_memory 0) m"
    using mem_write_loop_frame [of "demo_memory 0" Byte CannotWriteFinalHash "0x500" 0 "name @ [0]"] m(1) by simp
  ultimately show ?thesis using m(2) by blast
qed

lemma demo_named:
  assumes "same_frame (demo_memory 0) m" and "guest_inv m"
  shows "sim_wf ((demo_sim 0 rs)\<lparr>mem := m\<rparr>)" and "watchpoints_fit m"
    and "reg i ((demo_sim 0 rs)\<lparr>mem := m\<rparr>) = reg i (demo_sim 0 rs)"
  using sim_wf_frame [of "demo_sim 0 rs" m] assms by (simp_all add: guest_inv_def reg_def)

lemma demo_names: "length (sys_name ''SYS_READ'') < 256" "0 \<notin> set (sys_name ''SYS_READ'')"
  "length (sys_name ''SYS_WRITE'') < 256" "0 \<notin> set (sys_name ''SYS_WRITE'')"
  by (simp_all add: sys_name_def ascii_def)

section \<open>A stream with an end\<close>

text \<open>A buffer of \<open>n\<close> words.\<close>

definition buffer_write :: "nat \<Rightarrow> u32 list WordWrite" where
  "buffer_write n =
     \<lparr>write_words = (\<lambda>words buf.
        if length buf + length words \<le> n then (Ok (), buf @ words) else (Err SerializeBufferFull, buf)),
      write_padded_bytes = (\<lambda>bytes buf.
        if length buf + length (pad_words bytes) \<le> n then (Ok (), buf @ pad_words bytes)
        else (Err SerializeBufferFull, buf))\<rparr>"

end
