(* ===== verification/Witnesses.thy ===== *)
theory Witnesses
  imports Demo
begin

text \<open>
  Every property that has hypotheses, applied to a concrete state in which they hold: the
  witnesses, in the order of the components.
\<close>

section \<open>Cycle counter and memory\<close>

lemma missing_none [simp]: "missing_pages R {} = {}"
  using missing_pages_Union [of R "{}"] by simp

theorem callback_step_charges_witness:
  "callback_step sorted_list_of_set 1 0 default_scc = (Ok (), commit_step 1 default_scc) \<and>
   callback_step sorted_list_of_set 1 2000000 default_scc = (Hang, default_scc)"
  using callback_step_charges [OF enumerates_sorted scc_wf_default, of 1 0]
    callback_step_charges [OF enumerates_sorted scc_wf_default, of 1 2000000]
  by (simp add: fits_def step_cycles_def default_scc_def new_segment_def cfg_simps)

theorem guest_page_walk_bounded_witness:
  "\<exists>cycle new. page_walk {} (0, []) 1 = Some (cycle, new) \<and> length new \<le> 5 \<and> cycle \<le> 5130"
  by (rule guest_page_walk_bounded) simp

theorem ordinary_step_is_charged_witness:
  "\<exists>c'. callback_step sorted_list_of_set 1 0 (callback_read_mem 1 default_scc) = (Ok (), c') \<and>
     scc_wf c' \<and> cur_step_read c' = {} \<and> cur_step_write c' = {}"
proof (rule ordinary_step_is_charged [OF enumerates_sorted])
  show "scc_wf (callback_read_mem 1 default_scc)"
    by (rule scc_wf_callback_mem) (simp_all add: scc_wf_default)
qed (simp_all add: callback_read_mem_def default_scc_def)

theorem read_mem_bytes_witness:
  "\<exists>v m'. read_mem_with_privileges 0x400 Word False (demo_memory 0x13) = (Ok (Some v), m') \<and>
     byte_at m' = byte_at (demo_memory 0x13) \<and>
     (\<forall>k < 4. byte_of k v = byte_at (demo_memory 0x13) (0x400 + of_nat k))"
  using read_mem_bytes [of "demo_memory 0x13" False "0x400" Word]
  by (simp add: out_of_range_def aligned_def cfg_simps)

theorem write_mem_bytes_witness:
  "\<exists>m'. write_mem_with_privileges 0x402 HalfWord 0x1234 False (demo_memory 0x13) = (Ok True, m') \<and>
     mem_wf m' \<and> byte_at m' = written (byte_at (demo_memory 0x13)) HalfWord 0x402 0x1234"
  using write_mem_bytes [of "demo_memory 0x13" False "0x402" HalfWord "0x1234"]
  by (simp add: out_of_range_def cfg_simps)

lemma in_range_400: "k < 100 \<Longrightarrow> in_range (0x400 + of_nat k)"
  by (simp add: in_range_def out_of_range_def cfg_simps unat_add32)

theorem guest_block_roundtrip_witness:
  "\<exists>m1 m2. write_loop (\<lambda>a v. write_mem a Byte v) CannotWriteFinalHash 0x400 0 [1, 2, 3] (demo_memory 0x13) = (Ok (), m1) \<and>
     read_loop (\<lambda>a. read_mem a Byte) CannotWriteFinalHash 0x400 0 3 m1 = (Ok [1, 2, 3], m2) \<and>
     byte_at m2 = overlay (byte_at (demo_memory 0x13)) 0x400 [1, 2, 3]"
proof -
  have l: "length [1, 2, 3 :: u8] = 3" by simp
  have "\<forall>k < 3. in_range (0x400 + of_nat k)" by (simp add: in_range_400)
  from guest_block_roundtrip [of "demo_memory 0x13" "0x400" "[1, 2, 3]" CannotWriteFinalHash, unfolded l] this
  show ?thesis by simp
qed

theorem guest_access_effects_witness:
  "watch_trigger (snd (read_mem 0x400 Word (demo_memory 0x13))) = None \<and>
   session_cycle_callback (snd (write_mem 0x400 Word 7 (demo_memory 0x13))) =
     Some (callback_write_mem 1 default_scc)"
proof -
  have "in_range 0x400" using in_range_400 [of 0] by simp
  from guest_access_effects [OF demo_memory_inv(1) [of "0x13"] this, of Word 7] show ?thesis
    by (simp add: trigger_after_none drop_bit_eq_div)
qed

theorem fires_iff_meets_or_touches_witness:
  "watch_trigger (snd (read_mem 0x400 Word ((demo_memory 0x13)\<lparr>hw_watchpoints := [(0x404, 4, WatchRead)]\<rparr>))) \<noteq> None \<and>
   watch_trigger (snd (read_mem 0x400 Word ((demo_memory 0x13)\<lparr>hw_watchpoints := [(0x405, 4, WatchRead)]\<rparr>))) = None"
proof -
  let ?m = "\<lambda>w. (demo_memory 0x13)\<lparr>hw_watchpoints := [(w, 4, WatchRead)]\<rparr>"
  have m: "guest_inv (?m w)" if "unat w + 4 < 2 ^ 32" for w
    using demo_memory_inv [of "0x13"] that by (simp add: guest_inv_def mem_wf_def watchpoints_fit_def)
  have r: "in_range 0x400" by (simp add: in_range_def out_of_range_def guest_mem_consts)
  have "watch_trigger (snd (read_mem 0x400 Word (?m w))) \<noteq> None \<longleftrightarrow> meets_or_touches 0x400 4 (unat w) 4"
    if "unat w + 4 < 2 ^ 32" for w
    using fires_iff_meets_or_touches [OF m [OF that] r, of Word] by simp
  from this [of "0x404"] this [of "0x405"] show ?thesis
    by (simp add: meets_or_touches_def ranges_meet_iff del: not_None_eq)
qed

theorem privileged_access_invisible_witness:
  "session_cycle_callback (snd (read_mem_with_privileges 0x400 Byte True (demo_memory 0x13))) = Some default_scc \<and>
   watch_trigger (snd (write_mem_with_privileges 0x400 Byte 1 True (demo_memory 0x13))) = None"
  using privileged_access_invisible [OF demo_memory_inv(2) [of "0x13"], of "0x400" Byte 1] by simp

section \<open>Steps and environment calls\<close>

text \<open>The instruction \<open>0x13\<close> is \<open>nop\<close>, and \<open>0x73\<close> is \<open>ecall\<close>.\<close>

lemma nop [simp]: "get_opcode_cycle 0x13 = Inr 1" "\<not> is_ecall 0x13"
  by (simp_all add: get_opcode_cycle_def is_ecall_def opcode_of_def funct3_of_def Let_def)

lemma ecall_insn [simp]: "is_ecall 0x73"
  by (simp add: is_ecall_def opcode_of_def funct3_of_def rs2_of_def funct7_of_def)

lemma nop_step:
  assumes "demo_ok 0x13 s" and "drop_bit 10 (pc (hart_state s) + \<delta>) = 1"
  obtains s' :: Simulator where "step (demo_externs \<delta>) s = (Ok None, s')" "demo_ok 0x13 s'"
    "pc (hart_state s') = pc (hart_state s) + \<delta>"
  using demo_step [OF assms(1), of 1 \<delta>] assms(2) by auto

lemma halt_step:
  assumes "demo_ok 0x73 s" and "reg REG_T0 s = ECALL_HALT" and "reg REG_A0 s = 0"
  shows "\<exists>m. step (demo_externs \<delta>) s = (Ok (Some (Halted 0)), s\<lparr>mem := m\<rparr>)"
proof -
  from assms(1) obtain c where c: "session_cycle_callback (mem s) = Some c" "scc_wf c"
    "cur_step_read c = {}" "cur_step_write c = {}"
    by (auto simp: demo_ok_def sim_wf_def mem_wf_def)
  have cr: "scc_wf (callback_read_mem 1 c)" by (rule scc_wf_callback_mem) (simp_all add: c)
  have "enumerates (hashset_iter (demo_externs \<delta>))" by (simp add: demo_externs_def enumerates_sorted)
  from charge_returns [OF this cr, of 1 0] c(3,4) obtain c' where
    c': "callback_step (hashset_iter (demo_externs \<delta>)) 1 0 (callback_read_mem 1 c) = (Ok (), c')"
    by (auto simp: callback_read_mem_def)
  let ?m = "(mem s)\<lparr>session_cycle_callback := Some (callback_read_mem 1 c)\<rparr>"
  let ?s = "clear_trigger (s\<lparr>mem := ?m\<rparr>)"
  have regs: "reg i ?s = reg i s" for i by (simp add: reg_def)
  have "ecall (demo_externs \<delta>) ?s = (Ok (pc (hart_state s), Some (Halted 0), 0), ?s)"
    using assms(2,3) by (simp add: ecall_unfold ecall_halt_unfold regs cfg_simps)
  moreover have "set_pc (pc (hart_state s)) ?s = ?s" by (simp add: set_pc_def clear_trigger_def)
  moreover have "count_step (demo_externs \<delta>) 1 0 ?s =
      (Ok (), s\<lparr>mem := (mem s)\<lparr>session_cycle_callback := Some c', watch_trigger := None\<rparr>\<rparr>)"
    using c' by (simp add: count_step_def lift_cycle_def clear_trigger_def)
  moreover have "read_mem (pc (hart_state s)) Word (mem s) = (Ok (Some 0x73), ?m)"
    using demo_fetch [OF assms(1)] c(1) by simp
  ultimately have "step (demo_externs \<delta>) s = (Ok (Some (Halted 0)),
      s\<lparr>mem := (mem s)\<lparr>session_cycle_callback := Some c', watch_trigger := None\<rparr>\<rparr>)"
    using step_ecall [of s "0x73" ?m "demo_externs \<delta>"]
    by (simp add: bindM_run bindM_def [of "ecall e" for e] bindM_def [of "count_step e a b" for e a b] ret_def)
  then show ?thesis by blast
qed

lemma demo_reg: "i < 32 \<Longrightarrow> reg i (demo_sim insn [(i, v)]) = v"
  by (simp add: reg_def demo_regs_def)

lemma demo_reg_none: "i < 32 \<Longrightarrow> reg i (demo_sim insn []) = 0"
  by (simp add: reg_def demo_regs_def)

theorem step_keeps_invariant_witness:
  "externs_documented (demo_externs 4) \<and> sim_wf (demo_sim 0x13 []) \<and>
   sim_wf (snd (step (demo_externs 4) (demo_sim 0x13 [])))"
  using step_keeps_invariant [OF demo_externs_documented demo_sim_wf surjective_pairing] by simp

theorem step_order_irrelevant_witness:
  "enumerates (rev \<circ> sorted_list_of_set) \<and>
   step ((demo_externs 4)\<lparr>hashset_iter := rev \<circ> sorted_list_of_set\<rparr>) (demo_sim 0x13 []) =
   step (demo_externs 4) (demo_sim 0x13 [])"
proof -
  have it: "enumerates (rev \<circ> sorted_list_of_set)" by (simp add: enumerates_def)
  from step_order_irrelevant [OF demo_externs_documented this demo_sim_wf] it show ?thesis by simp
qed

theorem step_advances_cycles_witness:
  "\<exists>s' c c'. step (demo_externs 4) (demo_sim 0x13 []) = (Ok None, s') \<and>
     session_cycle_callback (demo_memory 0x13) = Some c \<and> session_cycle_callback (mem s') = Some c' \<and>
     get_session_cycle c < get_session_cycle c'"
proof -
  obtain s' :: Simulator where s': "step (demo_externs 4) (demo_sim 0x13 []) = (Ok None, s')"
    by (rule nop_step [of "demo_sim 0x13 []" 4]) (simp_all add: drop_bit_eq_div)
  from step_advances_cycles [OF demo_externs_documented demo_sim_wf this] s' show ?thesis by auto
qed

theorem step_reports_watchpoint_witness:
  "\<exists>s'. step (demo_externs 4) (demo_sim 0x13 []) = (Ok None, s') \<and>
     hw_watchpoints (mem s') = [] \<and> watch_trigger (mem s') = None"
proof -
  obtain s' :: Simulator where s': "step (demo_externs 4) (demo_sim 0x13 []) = (Ok None, s')"
    by (rule nop_step [of "demo_sim 0x13 []" 4]) (simp_all add: drop_bit_eq_div)
  from step_reports_watchpoint [OF demo_externs_documented demo_sim_wf this] s' show ?thesis by auto
qed

theorem halt_stops_in_place_witness:
  "\<exists>s'. step (demo_externs 4) (demo_sim 0x73 []) = (Ok (Some (Halted 0)), s') \<and>
     hart_state s' = hart_state (demo_sim 0x73 []) \<and> reg REG_T0 (demo_sim 0x73 []) = ECALL_HALT"
proof -
  obtain m where "step (demo_externs 4) (demo_sim 0x73 []) = (Ok (Some (Halted 0)), (demo_sim 0x73 [])\<lparr>mem := m\<rparr>)"
    using halt_step [of "demo_sim 0x73 []" 4] by (auto simp: demo_reg_none cfg_simps)
  from halt_stops_in_place [OF this] this show ?thesis by auto
qed

theorem exit_is_final_witness:
  "\<exists>s' m. step (demo_externs 4) (demo_sim 0x73 []) = (Ok (Some (Halted 0)), s') \<and>
     ((\<lambda>s. snd (step (demo_externs 4) s)) ^^ 1000) s' = s'\<lparr>mem := m\<rparr> \<and>
     fst (step (demo_externs 4) (s'\<lparr>mem := m\<rparr>)) = Ok (Some (Halted 0))"
proof -
  obtain s' :: Simulator where s': "step (demo_externs 4) (demo_sim 0x73 []) = (Ok (Some (Halted 0)), s')"
    using halt_step [of "demo_sim 0x73 []" 4] by (auto simp: demo_reg_none cfg_simps)
  have "watchpoints_fit (mem (demo_sim 0x73 []))" by simp
  from exit_is_final [OF demo_externs_documented demo_sim_wf this s', of 1000] s' show ?thesis by blast
qed

theorem oversized_ecall_never_completes_witness:
  "\<forall>x s'. step (demo_externs 4) (demo_sim 0x73 [(REG_T0, 3), (REG_A4, 20000)]) \<noteq> (Ok x, s')"
proof (intro allI)
  fix x :: "ExitCode option" and s' :: Simulator
  let ?s = "demo_sim 0x73 [(REG_T0, 3), (REG_A4, 20000)]"
  have "reg REG_T0 ?s = ECALL_SHA \<and> 14341 \<le> unat (reg REG_A4 ?s)"
    by (simp add: reg_def demo_regs_def cfg_simps)
  then show "step (demo_externs 4) ?s \<noteq> (Ok x, s')"
    by (intro conjunct1 [OF oversized_ecall_never_completes [OF demo_externs_documented demo_sim_wf demo_fetch [OF demo_ok_sim]]])
      simp_all
qed

section \<open>System calls\<close>

theorem guest_reads_input_witness:
  "\<exists>m s'. holds_string (byte_at m) 0x500 (sys_name ''SYS_READ'') \<and>
     ecall (demo_externs 4) ((demo_sim 0 [(REG_T0, 2), (REG_A0, 0x600), (REG_A1, 1), (REG_A2, 0x500),
       (REG_A3, STDIN), (REG_A4, 6)])\<lparr>mem := m\<rparr>) = (Ok (0x404, None, 6), s') \<and>
     byte_at (mem s') = overlay (byte_at m) 0x600 [0, 1, 2, 3] \<and> reg REG_A0 s' = 6"
proof -
  let ?rs = "[(REG_T0, 2), (REG_A0, 0x600), (REG_A1, 1), (REG_A2, 0x500), (REG_A3, STDIN), (REG_A4, 6)]"
  obtain m where m: "same_frame (demo_memory 0) m" "guest_inv m"
    "holds_string (byte_at m) 0x500 (sys_name ''SYS_READ'')"
    using demo_string [OF demo_names(1,2)] by blast
  let ?s = "(demo_sim 0 ?rs)\<lparr>mem := m\<rparr>"
  have regs: "reg REG_T0 ?s = ECALL_SOFTWARE" "reg REG_A0 ?s = 0x600" "reg REG_A1 ?s = 1"
    "reg REG_A2 ?s = 0x500" "reg REG_A3 ?s = STDIN" "reg REG_A4 ?s = 6"
    unfolding demo_named(3) [OF m(1,2)] by (simp_all add: reg_def demo_regs_def cfg_simps)
  let ?in = "map of_nat [0..<10] :: u8 list"
  have four: "take 4 ?in = [0, 1, 2, 3]" by (simp add: upt_rec)
  have avail: "?in = drop (position (stdin ?s)) (get_ref (stdin ?s))" by simp
  note r = guest_reads_input [where s = ?s and k = 1 and nbytes = 6 and avail = ?in and n = 6 and ext = "demo_externs 4",
      OF _ _ _ _ _ _ _ _ _ avail]
  have "\<exists>s'. ecall (demo_externs 4) ?s = (Ok (0x404, None, 6), s') \<and>
     byte_at (mem s') = overlay (byte_at m) 0x600 (take 4 ?in) \<and> reg REG_A0 s' = 6"
    using r demo_named(1,2) [OF m(1,2)] m(3)
    by (auto simp: regs in_range_def out_of_range_def guest_range_def guest_mem_consts)
  then show ?thesis using m(3) by (auto simp: four)
qed

theorem guest_writes_output_witness:
  "\<exists>m s'. holds_string (byte_at m) 0x500 (sys_name ''SYS_WRITE'') \<and>
     ecall (demo_externs 4) ((demo_sim 0 [(REG_T0, 2), (REG_A0, 0x600), (REG_A1, 1), (REG_A2, 0x500),
       (REG_A3, JOURNAL), (REG_A4, 0x400), (REG_A5, 3)])\<lparr>mem := m\<rparr>) = (Ok (0x404, None, 6), s') \<and>
     get_ref (journal s') = load (byte_at m) 0x400 3 \<and>
     byte_at (mem s') = overlay (byte_at m) 0x600 (replicate 4 0)"
proof -
  let ?rs = "[(REG_T0, 2), (REG_A0, 0x600), (REG_A1, 1), (REG_A2, 0x500), (REG_A3, JOURNAL), (REG_A4, 0x400), (REG_A5, 3)]"
  obtain m where m: "same_frame (demo_memory 0) m" "guest_inv m"
    "holds_string (byte_at m) 0x500 (sys_name ''SYS_WRITE'')"
    using demo_string [OF demo_names(3,4)] by blast
  let ?s = "(demo_sim 0 ?rs)\<lparr>mem := m\<rparr>"
  have regs: "reg REG_T0 ?s = ECALL_SOFTWARE" "reg REG_A0 ?s = 0x600" "reg REG_A1 ?s = 1"
    "reg REG_A2 ?s = 0x500" "reg REG_A3 ?s = JOURNAL" "reg REG_A4 ?s = 0x400" "reg REG_A5 ?s = 3"
    unfolding demo_named(3) [OF m(1,2)] by (simp_all add: reg_def demo_regs_def cfg_simps)
  have "get_write_fd JOURNAL ?s = (Ok ChJournal, ?s)" by (simp add: get_write_fd_def ret_def cfg_simps)
  moreover have "guest_range 0x400 3" "guest_range 0x600 4" "in_range 0x600"
    by (simp_all add: guest_range_def guest_mem_consts in_range_def out_of_range_def)
  moreover have "get_ref (journal ?s) = []" by (simp add: demo_sim_def default_cursor_def)
  ultimately show ?thesis
    using guest_writes_output [of ?s ChJournal "demo_externs 4", unfolded regs] demo_named(1,2) [OF m(1,2)] m(3)
    by auto
qed

section \<open>Accelerators\<close>

theorem sha_ecall_hashes_witness:
  "\<exists>s'. ecall_sha (demo_externs 4)
       (demo_sim 0x13 [(REG_A0, 0x600), (REG_A1, 0x400), (REG_A2, 0x400), (REG_A3, 0x440), (REG_A4, 1)]) =
     (Ok (0x404, None, 73), s') \<and>
     byte_at (mem s') = overlay (byte_at (demo_memory 0x13)) 0x600
       (be_bytes (be_words (load (byte_at (demo_memory 0x13)) 0x400 32)))"
proof -
  let ?s = "demo_sim 0x13 [(REG_A0, 0x600), (REG_A1, 0x400), (REG_A2, 0x400), (REG_A3, 0x440), (REG_A4, 1)]"
  have regs: "reg REG_A0 ?s = 0x600" "reg REG_A1 ?s = 0x400" "reg REG_A2 ?s = 0x400"
    "reg REG_A3 ?s = 0x440" "reg REG_A4 ?s = 1"
    by (simp_all add: reg_def demo_regs_def cfg_simps)
  have "sha_spec (compress256 (demo_externs 4)) f 1 p q st = st" for f p q st
    by (simp add: demo_externs_def)
  with sha_ecall_hashes [of ?s "demo_externs 4"] show ?thesis
    unfolding regs by (auto simp: guest_range_def guest_mem_consts aligned_def be_words_def)
qed

lemma load_demo_zeros: "load (byte_at (demo_memory 0)) p n = replicate n 0"
proof -
  have "byte_at (demo_memory 0) a = 0" for a
    by (simp add: byte_at_def word_at_def byte_of_def)
  then show ?thesis by (intro nth_equalityI) (simp_all add: load_def)
qed

lemma demo_from_zeros: "from_le_bytes256 demo_lib (replicate n 0) = 0"
  by (induction n) (simp_all add: demo_lib_def)

text \<open>Two operands that begin with the last word of the page, and are 7; the third one is 0.\<close>

lemma demo_seven: "nat_of_bytes (load (byte_at (demo_memory 7)) 0x7FC 32) = 7"
  and demo_zero: "nat_of_bytes (load (byte_at (demo_memory 7)) 0x800 32) = 0"
proof -
  let ?f = "byte_at (demo_memory 7)"
  have page: "?f a = 0" if "drop_bit 10 a = 2" for a
    using that by (simp add: byte_at_def word_at_def byte_of_def)
  have "?f (0x800 + of_nat k) = 0" if "k < 32" for k
  proof (rule page, rule word_unat_eq_iff [THEN iffD2])
    have "unat (0x800 + of_nat k :: u32) = 2048 + k" using that by (simp add: unat_add32)
    then show "unat (drop_bit 10 (0x800 + of_nat k :: u32)) = unat (2 :: u32)" using that by (simp add: unat_shr10)
  qed
  then have zeros: "load ?f 0x800 n = replicate n 0" if "n \<le> 32" for n
    using that by (intro nth_equalityI) (simp_all add: load_def)
  have none: "nat_of_bytes (replicate n 0) = 0" for n by (induction n) simp_all
  show "nat_of_bytes (load ?f 0x800 32) = 0" unfolding zeros [OF le_refl] by (rule none)
  have "?f 0x7FC = 7" "?f 0x7FD = 0" "?f 0x7FE = 0" "?f 0x7FF = 0"
    by (simp_all add: byte_at_def word_at_def byte_of_def page_offset_of_def drop_bit_eq_div)
  then have "load ?f 0x7FC 4 = [7, 0, 0, 0]" by (simp add: load_def upt_rec)
  moreover have "load ?f 0x7FC 32 = load ?f 0x7FC 4 @ load ?f 0x800 28"
    using load_append [of ?f "0x7FC" 4 28] by simp
  ultimately show "nat_of_bytes (load ?f 0x7FC 32) = 7" using zeros [of 28] none by simp
qed

theorem bigint_ecall_multiplies_witness:
  "\<exists>s'. ecall (demo_externs 4)
       (demo_sim 7 [(REG_T0, 4), (REG_A0, 0x600), (REG_A2, 0x7FC), (REG_A3, 0x7FC), (REG_A4, 0x800)]) =
     (Ok (0x404, None, 9), s') \<and> byte_at (mem s') 0x600 = 49 \<and> byte_at (mem s') 0x604 = 0"
proof -
  let ?s = "demo_sim 7 [(REG_T0, 4), (REG_A0, 0x600), (REG_A2, 0x7FC), (REG_A3, 0x7FC), (REG_A4, 0x800)]"
  have regs: "reg REG_T0 ?s = ECALL_BIGINT" "reg REG_A0 ?s = 0x600" "reg REG_A1 ?s = 0" "reg REG_A2 ?s = 0x7FC"
    "reg REG_A3 ?s = 0x7FC" "reg REG_A4 ?s = 0x800"
    by (simp_all add: reg_def demo_regs_def cfg_simps)
  have lib: "bigint (demo_externs 4) = demo_lib" by (simp add: demo_externs_def)
  have "\<forall>i \<in> {REG_A2, REG_A3, REG_A4}. guest_range (reg i ?s) 32 \<and> aligned Word (reg i ?s)"
    by (simp add: regs guest_range_def guest_mem_consts aligned_def)
  then obtain s' where s': "ecall (demo_externs 4) ?s = (Ok (0x404, None, 9), s')"
    "\<forall>i < 8. unat (byte_at (mem s') (0x600 + of_nat (4 * i))) = 49 div 256 ^ (4 * i) mod 256"
    using bigint_ecall_multiplies [of "demo_externs 4" ?s]
    by (auto simp: regs lib demo_lib_documented demo_lib_byte_order demo_seven demo_zero guest_range_def guest_mem_consts)
  from s'(2) [rule_format, of 0] s'(2) [rule_format, of 1]
  have "unat (byte_at (mem s') 0x600) = unat (49 :: u8)" "unat (byte_at (mem s') 0x604) = unat (0 :: u8)" by simp_all
  then have "byte_at (mem s') 0x600 = 49" "byte_at (mem s') 0x604 = 0" by (simp_all only: word_unat_eq_iff)
  with s'(1) show ?thesis by blast
qed

theorem bigint_ecall_stores_low_bytes_witness:
  "\<exists>s'. ecall_bigint (demo_externs 4)
       (demo_sim 0 [(REG_A0, 0x600), (REG_A2, 0x400), (REG_A3, 0x440), (REG_A4, 0x480)]) = (Ok (0x404, None, 9), s') \<and>
     (\<forall>k < 32. k mod 4 \<noteq> 0 \<longrightarrow> byte_at (mem s') (0x600 + of_nat k) = byte_at (demo_memory 0) (0x600 + of_nat k))"
proof -
  let ?s = "demo_sim 0 [(REG_A0, 0x600), (REG_A2, 0x400), (REG_A3, 0x440), (REG_A4, 0x480)]"
  have regs: "reg REG_A0 ?s = 0x600" "reg REG_A1 ?s = 0" "reg REG_A2 ?s = 0x400"
    "reg REG_A3 ?s = 0x440" "reg REG_A4 ?s = 0x480"
    by (simp_all add: reg_def demo_regs_def cfg_simps)
  have lib: "bigint (demo_externs 4) = demo_lib" by (simp add: demo_externs_def)
  have "\<forall>i \<in> {REG_A2, REG_A3, REG_A4}. guest_range (reg i ?s) 32 \<and> aligned Word (reg i ?s)"
    by (simp add: regs guest_range_def guest_mem_consts aligned_def)
  moreover have "bigint_result demo_lib 0 0 0 = Some 0" by (simp add: bigint_result_def demo_lib_def)
  ultimately show ?thesis
    using bigint_ecall_stores_low_bytes [of "demo_externs 4" ?s 0]
    by (auto simp: regs lib demo_lib_documented load_demo_zeros demo_from_zeros guest_range_def guest_mem_consts)
qed

section \<open>The debugger\<close>

lemma demo_dbg_wf [simp]: "dbg_wf (demo_debugger (demo_sim insn rs) mode bps)"
  by (simp add: dbg_wf_def)

theorem read_addrs_reads_memory_witness:
  "\<exists>d'. read_addrs 0x0BFFFFFE [9, 9, 9, 9] (demo_debugger (demo_sim 0x13 []) Continue {}) =
     (Ok (2, load (byte_at (demo_memory 0x13)) 0x0BFFFFFE 2 @ [9, 9]), d')"
proof -
  let ?d = "demo_debugger (demo_sim 0x13 []) Continue {}"
  have n: "2 = min (length [9, 9, 9, 9 :: u8]) (GUEST_MAX_MEM - unat (0x0BFFFFFE :: u32))"
    by (simp add: guest_mem_consts)
  have "\<exists>d'. read_addrs 0x0BFFFFFE [9, 9, 9, 9] ?d =
      (Ok (2, load (dbg_bytes ?d) 0x0BFFFFFE 2 @ drop 2 [9, 9, 9, 9]), d') \<and> dbg_bytes d' = dbg_bytes ?d"
    by (rule read_addrs_reads_memory [OF _ _ _ _ n]) (simp_all add: guest_mem_consts)
  then show ?thesis by (auto simp: dbg_bytes_def)
qed

theorem debugger_memory_roundtrip_witness:
  "\<exists>d1 d2. write_addrs 0x400 [1, 2, 3] (demo_debugger (demo_sim 0x13 []) Continue {}) = (Ok (), d1) \<and>
     read_addrs 0x400 [0, 0, 0] d1 = (Ok (3, [1, 2, 3]), d2)"
  using debugger_memory_roundtrip [of "demo_debugger (demo_sim 0x13 []) Continue {}" "0x400" "[1, 2, 3]" "[0, 0, 0]"]
  by (auto simp: guest_mem_consts guest_range_def)

theorem refused_write_is_partial_witness:
  "\<exists>d'. write_addrs 0x0C000000 [1, 2] (demo_debugger (demo_sim 0x13 []) Continue {}) = (Err NonFatal, d') \<and>
     dbg_bytes d' = overlay (byte_at (demo_memory 0x13)) 0x0C000000 [1]"
  using refused_write_is_partial [of "demo_debugger (demo_sim 0x13 []) Continue {}" "0x0C000000" "[1]" "[2]"]
  by (auto simp: guest_mem_consts dbg_bytes_def)


theorem watchpoints_behave_as_set_witness:
  "\<exists>d'. add_hw_watchpoint 0x400 4 WatchRead (demo_debugger (demo_sim 0x13 []) Continue {}) = (Ok True, d') \<and>
     set (get_watchpoints d') = {(0x400, 4, WatchRead)}"
  using watchpoints_behave_as_set [of "demo_debugger (demo_sim 0x13 []) Continue {}" "0x400" 4 WatchRead]
  by (auto simp: get_watchpoints_def)

theorem pread_delivers_witness:
  "pread 0 4 18 [9, 9, 9, 9] (demo_debugger (demo_sim 0x13 []) Continue {}) =
     (Ok (2, [18, 19, 9, 9]), demo_debugger (demo_sim 0x13 []) Continue {})"
proof -
  let ?d = "demo_debugger (demo_sim 0x13 []) Continue {}"
  have tail: "drop 18 (elf ?d) = [18, 19]" by (simp add: drop_map)
  have "pread 0 4 18 [9, 9, 9, 9] ?d = (Ok (2, take 2 (drop (unat (18 :: u64)) (elf ?d)) @ drop 2 [9, 9, 9, 9]), ?d)"
    by (rule pread_delivers) simp_all
  then show ?thesis by (simp del: demo_debugger_simps add: tail)
qed

theorem register_roundtrip_witness:
  "\<exists>d'. write_register (Gpr 5) [1, 2, 3, 4] (demo_debugger (demo_sim 0x13 []) Continue {}) = (Ok (), d') \<and>
     read_register (Gpr 5) [0, 0, 0, 0] d' = (Ok (4, [1, 2, 3, 4]), d')"
  using register_roundtrip [OF demo_dbg_wf [of "0x13" "[]" Continue "{}"], of "[1, 2, 3, 4]" "[0, 0, 0, 0]" "Gpr 5" 5]
  by auto

section \<open>Running under the debugger\<close>

text \<open>A connection on which nothing arrives.\<close>

definition demo_conn :: "unit conn" where
  "demo_conn = \<lparr>conn_peek = \<lambda>c. (Some None, c), conn_read = \<lambda>c. (None, c)\<rparr>"

lemma demo_conn_silent: "silent demo_conn ()"
  by (simp add: silent_def demo_conn_def)

lemma with_demo_debugger: "with_sim s (demo_debugger s0 mode bps) = demo_debugger s mode bps"
  by (simp add: with_sim_def demo_debugger_def)

lemma demo_two_steps:
  obtains s1 s2 :: Simulator where
    "step (demo_externs 4) (demo_sim 0x13 []) = (Ok None, s1)" "pc (hart_state s1) = 0x404"
    "step (demo_externs 4) s1 = (Ok None, s2)" "pc (hart_state s2) = 0x408"
proof -
  obtain s1 :: Simulator where 1: "step (demo_externs 4) (demo_sim 0x13 []) = (Ok None, s1)" "demo_ok 0x13 s1"
    "pc (hart_state s1) = 0x404"
    by (rule nop_step [of "demo_sim 0x13 []" 4]) (simp_all add: drop_bit_eq_div)
  obtain s2 :: Simulator where 2: "step (demo_externs 4) s1 = (Ok None, s2)" "demo_ok 0x13 s2"
    "pc (hart_state s2) = 0x408"
    by (rule nop_step [OF 1(2), of 4]) (simp_all add: 1(3) drop_bit_eq_div)
  from that [OF 1(1,3) 2(1,3)] show ?thesis .
qed

text \<open>Two steps up to a breakpoint, and two steps out of a range.\<close>

lemma demo_runs:
  obtains d1 d2 :: Debugger where
    "quiet (demo_externs 4) hits_breakpoint 1 (demo_debugger (demo_sim 0x13 []) Continue {0x408}) d1"
    "stops (demo_externs 4) hits_breakpoint d1 SwBreak d2" "pc (hart_state (simulator d2)) = 0x408"
proof -
  obtain s1 s2 :: Simulator where s: "step (demo_externs 4) (demo_sim 0x13 []) = (Ok None, s1)"
    "pc (hart_state s1) = 0x404" "step (demo_externs 4) s1 = (Ok None, s2)" "pc (hart_state s2) = 0x408"
    by (rule demo_two_steps)
  let ?d = "\<lambda>s. demo_debugger s Continue {0x408}"
  have "quiet (demo_externs 4) hits_breakpoint 1 (?d (demo_sim 0x13 [])) (?d s1)"
    using s(1,2) by (simp add: with_demo_debugger hits_breakpoint_def)
  moreover have "stops (demo_externs 4) hits_breakpoint (?d s1) SwBreak (with_sim s2 (?d s1))"
    using s(3,4) by (intro stops_check) (simp_all add: with_demo_debugger hits_breakpoint_def)
  ultimately show ?thesis using that s(4) by (simp add: with_demo_debugger)
qed

lemma demo_range_runs:
  obtains d1 d2 :: Debugger where
    "quiet (demo_externs 4) (leaves_range 0x400 0x408) 1
       (demo_debugger (demo_sim 0x13 []) (RangeStep 0x400 0x408) {}) d1"
    "stops (demo_externs 4) (leaves_range 0x400 0x408) d1 DoneStep d2"
proof -
  obtain s1 s2 :: Simulator where s: "step (demo_externs 4) (demo_sim 0x13 []) = (Ok None, s1)"
    "pc (hart_state s1) = 0x404" "step (demo_externs 4) s1 = (Ok None, s2)" "pc (hart_state s2) = 0x408"
    by (rule demo_two_steps)
  let ?d = "\<lambda>s. demo_debugger s (RangeStep 0x400 0x408) {}"
  have "quiet (demo_externs 4) (leaves_range 0x400 0x408) 1 (?d (demo_sim 0x13 [])) (?d s1)"
    using s(1,2) by (simp add: with_demo_debugger leaves_range_def hits_breakpoint_def)
  moreover have "stops (demo_externs 4) (leaves_range 0x400 0x408) (?d s1) DoneStep (with_sim s2 (?d s1))"
    using s(3,4) by (intro stops_check) (simp_all add: with_demo_debugger leaves_range_def hits_breakpoint_def)
  ultimately show ?thesis using that by blast
qed

theorem continue_runs_to_first_stop_witness:
  "\<exists>d'. wait_for_stop_reason (demo_externs 4) demo_conn (demo_debugger (demo_sim 0x13 []) Continue {0x408}, ()) =
     (Ok (TargetStopped SwBreak), (d', ())) \<and> pc (hart_state (simulator d')) = 0x408"
proof -
  obtain d1 d2 :: Debugger where d:
    "quiet (demo_externs 4) hits_breakpoint 1 (demo_debugger (demo_sim 0x13 []) Continue {0x408}) d1"
    "stops (demo_externs 4) hits_breakpoint d1 SwBreak d2" "pc (hart_state (simulator d2)) = 0x408"
    by (rule demo_runs)
  from continue_runs_to_first_stop [OF demo_conn_silent _ d(1,2)] d(3) show ?thesis by simp
qed

theorem continue_stop_is_genuine_witness:
  "\<exists>d' n d1. wait_for_stop_reason (demo_externs 4) demo_conn (demo_debugger (demo_sim 0x13 []) Continue {0x408}, ()) =
     (Ok (TargetStopped SwBreak), (d', ())) \<and>
     quiet (demo_externs 4) hits_breakpoint n (demo_debugger (demo_sim 0x13 []) Continue {0x408}) d1 \<and>
     stops (demo_externs 4) hits_breakpoint d1 SwBreak d'"
proof -
  let ?d = "demo_debugger (demo_sim 0x13 []) Continue {0x408}"
  obtain d1 d2 :: Debugger where d: "quiet (demo_externs 4) hits_breakpoint 1 ?d d1"
    "stops (demo_externs 4) hits_breakpoint d1 SwBreak d2" by (rule demo_runs)
  have "wait_for_stop_reason (demo_externs 4) demo_conn (?d, ()) = (Ok (TargetStopped SwBreak), (d2, ()))"
    using run_loop_quiet_stops [OF demo_conn_silent d, of 0] by (simp add: wait_defs bindM_getM checks_spec)
  from continue_stop_is_genuine [OF _ this] this show ?thesis by fastforce
qed

theorem range_step_exact_witness:
  "\<exists>d'. wait_for_stop_reason (demo_externs 4) demo_conn
       (demo_debugger (demo_sim 0x13 []) (RangeStep 0x400 0x408) {}, ()) = (Ok (TargetStopped DoneStep), (d', ()))"
proof -
  let ?d = "demo_debugger (demo_sim 0x13 []) (RangeStep 0x400 0x408) {}"
  obtain d1 d2 :: Debugger where d: "quiet (demo_externs 4) (leaves_range 0x400 0x408) 1 ?d d1"
    "stops (demo_externs 4) (leaves_range 0x400 0x408) d1 DoneStep d2" by (rule demo_range_runs)
  have "exec_mode ?d = RangeStep 0x400 0x408" by simp
  from range_step_exact [OF this, of "demo_externs 4" demo_conn "()" DoneStep d2 "()" 1 d1] d demo_conn_silent
  show ?thesis by auto
qed

lemma demo_quiet_forever:
  assumes "demo_ok 0x13 s"
  shows "\<exists>d1. quiet (demo_externs 0) hits_breakpoint n (demo_debugger s Continue {}) d1"
  using assms
proof (induction n arbitrary: s)
  case (Suc n)
  have "drop_bit 10 (pc (hart_state s) + 0) = 1" using Suc.prems by (simp add: demo_ok_def)
  then obtain s' :: Simulator where s': "step (demo_externs 0) s = (Ok None, s')" "demo_ok 0x13 s'"
    by (rule nop_step [OF Suc.prems])
  with Suc.IH [OF s'(2)] show ?case by (auto simp: with_demo_debugger hits_breakpoint_def)
qed auto

theorem continue_overflows_witness:
  "\<exists>d1. wait_for_stop_reason (demo_externs 0) demo_conn (demo_debugger (demo_sim 0x13 []) Continue {}, ()) =
     (Panic ArithOverflow, (d1, ()))"
proof -
  obtain d1 where "quiet (demo_externs 0) hits_breakpoint (2 ^ 31 - 1) (demo_debugger (demo_sim 0x13 []) Continue {}) d1"
    using demo_quiet_forever [OF demo_ok_sim] by blast
  with continue_overflows [OF demo_conn_silent, of "demo_debugger (demo_sim 0x13 []) Continue {}" "demo_externs 0"]
  show ?thesis by auto
qed

section \<open>Loading, serializing, the main program\<close>

text \<open>A file with two words of program, loaded at the lowest address.\<close>

definition demo_image :: "u8 list" where
  "demo_image = [0x73, 0, 0, 0, 0x13, 0, 0, 0]"

definition demo_segment :: segment where
  "demo_segment = \<lparr>p_type = PT_LOAD, p_filesz = 8, p_memsz = 12, p_vaddr = 0x400, p_offset = 0\<rparr>"

definition demo_elf :: elf_file where
  "demo_elf = \<lparr>class_elf32 = True, e_machine = EM_RISCV, e_type = ET_EXEC, e_entry = 0x400,
     segment_table = Some [demo_segment]\<rparr>"

lemma demo_elf_loadable: "elf_loadable demo_image demo_elf"
proof -
  have "\<forall>k < min (8 :: nat) 12. k < min (length demo_image) 4294967296" by (simp add: demo_image_def)
  then have "seg_loadable demo_image demo_segment"
    by (simp add: seg_loadable_def demo_segment_def seg_extent_def guest_mem_consts)
  then show ?thesis by (simp add: elf_loadable_def demo_elf_def guest_mem_consts)
qed

theorem load_elf_places_segments_witness:
  "\<exists>m'. load_elf (\<lambda>_. Some demo_elf) demo_image default_memory = (Ok 0x400, m') \<and>
     byte_at m' = place_segment demo_image demo_segment (\<lambda>_. 0)"
  using load_elf_places_segments [where minimal_parse = "\<lambda>_. Some demo_elf", OF guest_inv_default refl demo_elf_loadable]
  by (auto simp: byte_at_default demo_elf_def demo_segment_def)

theorem load_elf_only_loadable_witness:
  "\<exists>entry m'. load_elf (\<lambda>_. Some demo_elf) demo_image default_memory = (Ok entry, m') \<and>
     elf_loadable demo_image demo_elf \<and> entry = ucast (e_entry demo_elf)"
proof -
  obtain m' where "load_elf (\<lambda>_. Some demo_elf) demo_image default_memory = (Ok (ucast (e_entry demo_elf)), m')"
    using load_elf_ok [where minimal_parse = "\<lambda>_. Some demo_elf", OF guest_inv_default refl demo_elf_loadable] by blast
  from load_elf_only_loadable [OF guest_inv_default this] this show ?thesis by auto
qed

theorem encoding_determines_value_witness:
  "to_vec (VStr [104, 105]) = Ok [2, 0x6968] \<and> VStr [104, 105] = VStr [104, 105] \<and> [7] = [7 :: u32]"
proof -
  have s: "has_type (VStr [104, 105]) TStr" by simp
  have "replicate 2 (0 :: u8) = [0, 0]" by (simp add: eval_nat_numeral)
  then have e: "to_vec (VStr [104, 105]) = Ok [2, 0x6968]"
    by (simp add: to_vec_spec pad_words_def from_le4_def)
  from encoding_determines_value [OF s s e e, of "[7]" "[7]"] e show ?thesis by simp
qed

text \<open>A pair of a small integer and a long one.\<close>

theorem refused_write_ends_serialization_witness:
  "serialize (buffer_write 1) (VU64 5) (new_serializer []) = (Err SerializeBufferFull, \<lparr>stream = [5]\<rparr>)"
  using refused_write_ends_serialization [of "VU64 5" "[Words [5]]" "Words [0]" "[]" "buffer_write 1" "new_serializer []"]
  by (simp add: buffer_write_def bindM_def ret_def new_serializer_def drop_bit_eq_div)

theorem typed_values_serialize_witness:
  "\<exists>words. to_vec (VTuple [VU8 7, VU64 (2 ^ 32)]) = Ok words \<and> length words = 3"
proof -
  have "has_type (VTuple [VU8 7, VU64 (2 ^ 32)]) (TTuple [TU8, TU64])" by simp
  from typed_values_serialize [OF this] show ?thesis by (simp add: numeral_3_eq_3)
qed

theorem boot_ready_witness:
  "\<exists>s. boot (\<lambda>_. Some demo_elf) demo_image [] = (Ok s, []) \<and> sim_wf s \<and> pc (hart_state s) = 0x400 \<and>
     byte_at (mem s) = place_segment demo_image demo_segment (\<lambda>_. 0)"
  using boot_ready [where minimal_parse = "\<lambda>_. Some demo_elf" and l = "[]", OF refl demo_elf_loadable]
  by (auto simp: demo_elf_def demo_segment_def)

text \<open>A client that connects, lets the program write a greeting, and disconnects.\<close>

definition demo_greeted :: Simulator where
  "demo_greeted = (demo_sim 0x73 [])\<lparr>stdout := \<lparr>get_ref = [104, 105], position = 0\<rparr>\<rparr>"

lemma demo_greeted_halts:
  "\<exists>m. step (demo_externs 4) demo_greeted = (Ok (Some (Halted 0)), demo_greeted\<lparr>mem := m\<rparr>)"
proof (rule halt_step)
  show "demo_ok 0x73 demo_greeted"
    using demo_ok_sim [of "0x73" "[]"] by (auto simp: demo_ok_def demo_greeted_def sim_wf_def cursor_wf_def)
qed (simp_all add: reg_def demo_greeted_def demo_regs_def cfg_simps)


section \<open>A session\<close>

text \<open>A client that sets a breakpoint and disconnects.\<close>

definition demo_client :: "(Debugger, stub_error, DisconnectReason) M" where
  "demo_client d = (Ok Disconnect, perform (BreakpointCall (AddSwBreakpoint 0x404)) d)"

lemma demo_client_documented: "stub_documented ext ops c demo_client"
proof -
  have "session ext ops (d, c) (perform (BreakpointCall (AddSwBreakpoint 0x404)) d, c)" for d
    by (rule session_next [OF session_start stub_call]) simp
  then show ?thesis by (auto simp: stub_documented_def demo_client_def)
qed

theorem session_keeps_invariant_witness:
  "\<exists>s r s'. boot (\<lambda>_. Some demo_elf) demo_image [] = (Ok s, []) \<and>
     debugger_takeover (demo_externs 4) demo_net demo_client demo_image s = (r, s') \<and> sim_wf s'"
proof -
  obtain s :: Simulator where s: "boot (\<lambda>_. Some demo_elf) demo_image [] = (Ok s, [])"
    using boot_ok [where minimal_parse = "\<lambda>_. Some demo_elf", OF refl demo_elf_loadable] by blast
  obtain r s' where t: "debugger_takeover (demo_externs 4) demo_net demo_client demo_image s = (r, s')" by fastforce
  from session_keeps_invariant [OF demo_externs_documented demo_client_documented [where ops = demo_conn] s t] s t
  show ?thesis by blast
qed

section \<open>Transparency\<close>

text \<open>A client that sets a breakpoint and lets the program run into it.\<close>

lemma demo_observes:
  "\<exists>d'. observes (demo_externs 4) demo_conn (\<lambda>_. True) (demo_debugger (demo_sim 0x13 []) Continue {}, ()) (d', ()) \<and>
     pc (hart_state (simulator d')) = 0x408"
proof -
  let ?d = "\<lambda>bps. demo_debugger (demo_sim 0x13 []) Continue bps"
  let ?observes = "observes (demo_externs 4) demo_conn (\<lambda>_. True)"
  have "perform (BreakpointCall (AddSwBreakpoint 0x408)) (?d {}) = ?d {0x408}"
    by (simp add: add_sw_breakpoint_def bindM_run ret_def demo_debugger_def)
  note call = this
  have "?observes (?d {}, ()) (perform (BreakpointCall (AddSwBreakpoint 0x408)) (?d {}), ())"
    by (rule observe_call [OF observe_start]) simp
  then have 1: "?observes (?d {}, ()) (?d {0x408}, ())" unfolding call .
  obtain d1 d2 :: Debugger where d: "quiet (demo_externs 4) hits_breakpoint 1 (?d {0x408}) d1"
    "stops (demo_externs 4) hits_breakpoint d1 SwBreak d2" "pc (hart_state (simulator d2)) = 0x408"
    by (rule demo_runs)
  have "wait_for_stop_reason (demo_externs 4) demo_conn (?d {0x408}, ()) = (Ok (TargetStopped SwBreak), (d2, ()))"
    using run_loop_quiet_stops [OF demo_conn_silent d(1,2), of 0]
    by (simp add: wait_defs bindM_getM checks_spec)
  with 1 have "?observes (?d {}, ()) (d2, ())" by (rule observe_wait) simp
  with d(3) show ?thesis by blast
qed

theorem debugging_follows_program_witness:
  "\<exists>n. pc (hart_state (after (demo_externs 4) n (demo_sim 0x13 []))) = 0x408"
proof -
  obtain d' :: Debugger where w: "observes (demo_externs 4) demo_conn (\<lambda>_. True)
      (demo_debugger (demo_sim 0x13 []) Continue {}, ()) (d', ())"
    "pc (hart_state (simulator d')) = 0x408" using demo_observes by blast
  from debugging_follows_program [OF demo_libraries _ _ w(1)] w(2) show ?thesis by (fastforce simp: Let_def)
qed

text \<open>A client that reads the memory, which creates its page, sets a watchpoint, and disconnects.\<close>

definition demo_looker :: "(Debugger, stub_error, DisconnectReason) M" where
  "demo_looker d = (Ok Disconnect, perform (BreakpointCall (AddHwWatchpoint 0x800 4 WatchWrite))
     (perform (BaseCall (ReadAddrs 0x800 [0, 0])) d))"

theorem debugging_leaves_no_trace_witness:
  "main_program (demo_externs 4) (\<lambda>_. Some demo_elf) demo_net demo_looker (Some demo_image) [] =
     main_program (demo_externs 4) (\<lambda>_. Some demo_elf) demo_net (\<lambda>d. (Ok Disconnect, d)) (Some demo_image) []"
proof -
  obtain s :: Simulator where s: "boot (\<lambda>_. Some demo_elf) demo_image [] = (Ok s, [])"
    using boot_ok [where minimal_parse = "\<lambda>_. Some demo_elf" and l = "[]", OF refl demo_elf_loadable] by blast
  let ?d = "\<lparr>elf = demo_image, simulator = s, exec_mode = Continue, breakpoints = {}\<rparr>"
  have "observes (demo_externs 4) demo_conn no_failure (?d, ()) (snd (demo_looker ?d), ())"
    unfolding demo_looker_def snd_conv by (intro observe_call observe_start) simp_all
  from debugging_leaves_no_trace [OF demo_libraries s this, of demo_looker] show ?thesis
    by (simp add: demo_looker_def)
qed

end
